theory Spec2Isabelle
  imports Complex_Main
begin

section \<open>Values, rasters and the host environment\<close>

text \<open>
  The script \<^verbatim>\<open>convert-ascii-to-polygon_ecmapprob-extra.py\<close> runs inside QGIS and
  drives GDAL, NumPy and the QGIS processing registry. The embedding keeps the script's
  own control flow and path arithmetic and makes the host explicit: the file store is a
  map from paths to files, the project's layer registry is a list, and what the script
  relies on but does not implement (how Python prints a number, what
  \<^verbatim>\<open>gdal:polygonize\<close> traces, which vector data QGIS accepts as a valid layer, what a
  directory lists and where a file can be created) is a field of an environment record.

  Cell values are numbers with the IEEE special values: a finite number, the two
  infinities, and NaN. A band has a data type; the script always writes a
  \<^verbatim>\<open>GDT_Float32\<close> band, so what it stores is rounded to binary32, and NumPy compares a
  \<^verbatim>\<open>float32\<close> array with the threshold rounded to binary32 as well. A Python \<^verbatim>\<open>float\<close>
  is taken as the binary64 number it is, and a Python \<^verbatim>\<open>int\<close> by its value; the
  negative zero is not told apart from zero. The cells of a source band are taken as
  given: on the binary32 numbers that a \<^verbatim>\<open>Float32\<close> band holds the conversion to
  binary32 is the identity.
\<close>

type_synonym path = string

datatype fval = Fin real | PInf | NInf | NaN

text \<open>The comparison \<^verbatim>\<open>>=\<close> of NumPy: false as soon as one side is NaN.\<close>

fun fval_ge :: "fval \<Rightarrow> fval \<Rightarrow> bool" where
  "fval_ge NaN _ = False"
| "fval_ge _ NaN = False"
| "fval_ge PInf _ = True"
| "fval_ge _ NInf = True"
| "fval_ge (Fin a) (Fin b) = (b \<le> a)"
| "fval_ge (Fin _) PInf = False"
| "fval_ge NInf _ = False"

text \<open>The comparison \<^verbatim>\<open><\<close> of Python numbers, used to order two thresholds.\<close>

fun fval_less :: "fval \<Rightarrow> fval \<Rightarrow> bool" where
  "fval_less NaN _ = False"
| "fval_less _ NaN = False"
| "fval_less PInf _ = False"
| "fval_less _ NInf = False"
| "fval_less (Fin a) (Fin b) = (a < b)"
| "fval_less (Fin _) PInf = True"
| "fval_less NInf _ = True"

text \<open>A threshold is a Python number: an \<^verbatim>\<open>int\<close> or a \<^verbatim>\<open>float\<close>.\<close>

datatype pynum = PyInt int | PyFloat fval

fun num_value :: "pynum \<Rightarrow> fval" where
  "num_value (PyInt i) = Fin (of_int i)"
| "num_value (PyFloat v) = v"

subsection \<open>Rounding to binary32\<close>

text \<open>Rounding a real to the nearest integer, a tie going to the even one.\<close>

definition round_half_even :: "real \<Rightarrow> int" where
  "round_half_even m =
     (let f = \<lfloor>m\<rfloor>; d = m - of_int f
      in if d < 1 / 2 then f else if 1 / 2 < d then f + 1 else if even f then f else f + 1)"

text \<open>
  The binade of a magnitude \<open>m\<close>: the exponent \<open>e\<close> with \<open>2\<^sup>e \<le> m < 2\<^sup>e\<^sup>+\<^sup>1\<close>, searched
  upwards from the least exponent of a normal binary32 number, \<open>-126\<close> (below it the
  subnormal numbers share that exponent), and not beyond \<open>128\<close>, where every number
  overflows.
\<close>

fun binade_from :: "nat \<Rightarrow> int \<Rightarrow> real \<Rightarrow> int" where
  "binade_from 0 e m = e"
| "binade_from (Suc n) e m = (if 2 powi (e + 1) \<le> m then binade_from n (e + 1) m else e)"

definition binade32 :: "real \<Rightarrow> int" where
  "binade32 m = binade_from 254 (- 126) m"

text \<open>
  Round to nearest, ties to even, with a significand of 24 bits: the magnitude is
  rounded to a multiple of the spacing \<open>2\<^sup>e\<^sup>-\<^sup>2\<^sup>3\<close> of its binade, and the sign is kept.
\<close>

definition round_magnitude32 :: "real \<Rightarrow> real" where
  "round_magnitude32 m =
     (let q = 2 powi (binade32 m - 23) in of_int (round_half_even (m / q)) * q)"

definition round_binary32 :: "real \<Rightarrow> real" where
  "round_binary32 x = sgn x * round_magnitude32 \<bar>x\<bar>"

text \<open>The conversion of a value to binary32: a result of magnitude \<open>2\<^sup>1\<^sup>2\<^sup>8\<close> overflows.\<close>

fun to_float32 :: "fval \<Rightarrow> fval" where
  "to_float32 (Fin x) =
     (let y = round_binary32 x
      in if 2 powi 128 \<le> y then PInf else if y \<le> - (2 powi 128) then NInf else Fin y)"
| "to_float32 v = v"

subsection \<open>Rasters, files and the host\<close>

text \<open>
  A GDAL dataset: its size, georeferencing, and its bands. A band holds its array as a
  list of rows, an optional no-data marker and its data type; the ASCII grid driver
  yields \<^verbatim>\<open>Int32\<close>, \<^verbatim>\<open>Float32\<close> or \<^verbatim>\<open>Float64\<close> bands.
\<close>

datatype gdal_type = GDT_Int32 | GDT_Float32 | GDT_Float64

record band =
  band_data :: "fval list list"
  NoDataValue :: "fval option"
  DataType :: gdal_type

record dataset =
  RasterXSize :: nat
  RasterYSize :: nat
  GeoTransform :: "real list"
  Projection :: string
  bands :: "band list"

text \<open>
  What a path holds: a raster dataset, the vector data of a shapefile, or a companion
  file of one of the two (\<^verbatim>\<open>.tif.aux.xml\<close>, \<^verbatim>\<open>.shx\<close>, \<^verbatim>\<open>.dbf\<close>), whose content is
  not modelled.
\<close>

datatype 'v stored = Raster dataset | Vector 'v | Companion

text \<open>A QGIS vector layer object: \<^verbatim>\<open>QgsVectorLayer(path, name, provider)\<close>.\<close>

record layer =
  layer_source :: path
  layer_name :: string
  layer_provider :: string

text \<open>
  The host. \<open>format_threshold\<close> is Python's formatting of a number inside an f-string,
  \<open>polygonize\<close> is the \<^verbatim>\<open>gdal:polygonize\<close> algorithm (\<open>None\<close> when the algorithm
  raises), \<open>vector_valid\<close> tells whether QGIS accepts vector data as a valid layer,
  \<open>listdir\<close> is the directory listing in enumeration order (\<open>None\<close> when the directory
  cannot be listed), and \<open>can_create\<close> tells whether a file can be created at a path.
\<close>

record 'v env =
  format_threshold :: "pynum \<Rightarrow> string"
  polygonize :: "dataset \<Rightarrow> 'v option"
  vector_valid :: "'v \<Rightarrow> bool"
  listdir :: "path \<Rightarrow> string list option"
  can_create :: "path \<Rightarrow> bool"

text \<open>
  The state the script changes: the file store, the layer registry of the QGIS project,
  and a log of the datasets written, each by its own path, in order (one entry per
  write, so a dataset written twice appears twice; companion files are not logged).
\<close>

record 'v world =
  files :: "path \<Rightarrow> 'v stored option"
  project_layers :: "layer list"
  writes :: "path list"

text \<open>
  The faults the script can meet: \<^verbatim>\<open>AttributeError\<close> when GDAL hands back \<^verbatim>\<open>None\<close> where
  the script goes on to call a method, \<^verbatim>\<open>OSError\<close> from \<^verbatim>\<open>os.listdir\<close> (Python raises one of
  its subclasses: \<^verbatim>\<open>FileNotFoundError\<close>, \<^verbatim>\<open>NotADirectoryError\<close>, \<^verbatim>\<open>PermissionError\<close>), and
  \<^verbatim>\<open>QgsProcessingException\<close> from the processing step.
\<close>

datatype error = AttributeError | OSError | QgsProcessingException

text \<open>
  A call either raises (\<open>Inl\<close>) or returns (\<open>Inr\<close>); both carry the state reached, since
  files written before a fault stay written.
\<close>

type_synonym ('a, 'v) outcome = "(error \<times> 'v world) + ('a \<times> 'v world)"

definition write_file :: "'v world \<Rightarrow> path \<Rightarrow> 'v stored \<Rightarrow> 'v world" where
  "write_file w p f = w\<lparr>files := (files w)(p \<mapsto> f), writes := writes w @ [p]\<rparr>"

definition put_companion :: "'v world \<Rightarrow> path \<Rightarrow> 'v world" where
  "put_companion w p = w\<lparr>files := (files w)(p \<mapsto> Companion)\<rparr>"

text \<open>\<^verbatim>\<open>gdal.Open\<close> returns \<^verbatim>\<open>None\<close> for a path that is not a readable raster.\<close>

definition gdal_Open :: "'v world \<Rightarrow> path \<Rightarrow> dataset option" where
  "gdal_Open w p = (case files w p of Some (Raster ds) \<Rightarrow> Some ds | _ \<Rightarrow> None)"

text \<open>\<^verbatim>\<open>GetRasterBand(1)\<close> returns \<^verbatim>\<open>None\<close> for a dataset without bands.\<close>

definition GetRasterBand1 :: "dataset \<Rightarrow> band option" where
  "GetRasterBand1 ds = (case bands ds of [] \<Rightarrow> None | b # _ \<Rightarrow> Some b)"

text \<open>
  \<^verbatim>\<open>driver.Create(path, xsize, ysize, 1, GDT_Float32)\<close>: a fresh one-band dataset
  filled with zeros, with GDAL's default geotransform and no projection.
\<close>

definition driver_Create :: "nat \<Rightarrow> nat \<Rightarrow> dataset" where
  "driver_Create xsize ysize =
     \<lparr>RasterXSize = xsize, RasterYSize = ysize,
      GeoTransform = [0, 1, 0, 0, 0, 1], Projection = [],
      bands = [\<lparr>band_data = replicate ysize (replicate xsize (Fin 0)),
                NoDataValue = None, DataType = GDT_Float32\<rparr>]\<rparr>"

text \<open>
  \<^verbatim>\<open>WriteArray\<close> and \<^verbatim>\<open>SetNoDataValue\<close> on band 1 of the one-band \<^verbatim>\<open>GDT_Float32\<close>
  dataset just created. The array written has the band's full shape (it was read from a
  band of the same size), so it replaces the band's contents, each value converted to
  binary32.
\<close>

definition WriteArray1 :: "dataset \<Rightarrow> fval list list \<Rightarrow> dataset" where
  "WriteArray1 ds arr =
     ds\<lparr>bands := map (\<lambda>b. b\<lparr>band_data := map (map to_float32) arr\<rparr>) (bands ds)\<rparr>"

definition SetNoDataValue1 :: "dataset \<Rightarrow> fval \<Rightarrow> dataset" where
  "SetNoDataValue1 ds v = ds\<lparr>bands := map (\<lambda>b. b\<lparr>NoDataValue := Some v\<rparr>) (bands ds)\<rparr>"

section \<open>Threshold masking\<close>

text \<open>
  The threshold as NumPy compares it with an array of a given type: rounded to binary32
  against a \<^verbatim>\<open>float32\<close> array, by its value against an \<^verbatim>\<open>int32\<close> or \<^verbatim>\<open>float64\<close> array.
\<close>

definition threshold_as :: "gdal_type \<Rightarrow> pynum \<Rightarrow> fval" where
  "threshold_as dtype threshold_value =
     (case dtype of
        GDT_Float32 \<Rightarrow> to_float32 (num_value threshold_value)
      | GDT_Int32 \<Rightarrow> num_value threshold_value
      | GDT_Float64 \<Rightarrow> num_value threshold_value)"

text \<open>
  \<^verbatim>\<open>np.where(raster_data >= threshold_value, raster_data, np.nan)\<close>, cell by cell, on an
  array of the given type.
\<close>

definition np_where_ge :: "gdal_type \<Rightarrow> fval list list \<Rightarrow> pynum \<Rightarrow> fval list list" where
  "np_where_ge dtype raster_data threshold_value =
     map (map (\<lambda>v. if fval_ge v (threshold_as dtype threshold_value) then v else NaN))
       raster_data"

definition create_threshold_raster ::
  "'v env \<Rightarrow> 'v world \<Rightarrow> path \<Rightarrow> path \<Rightarrow> pynum \<Rightarrow> (path, 'v) outcome" where
  "create_threshold_raster env w input_raster_path output_raster_path threshold_value =
     (case gdal_Open w input_raster_path of
        None \<Rightarrow> Inl (AttributeError, w)
      | Some raster_ds \<Rightarrow>
          (case GetRasterBand1 raster_ds of
             None \<Rightarrow> Inl (AttributeError, w)
           | Some band \<Rightarrow>
               let raster_data = band_data band;
                   thresholded_data = np_where_ge (DataType band) raster_data threshold_value
               in if \<not> can_create env output_raster_path then Inl (AttributeError, w)
                  else
                    let output_ds = driver_Create (RasterXSize raster_ds) (RasterYSize raster_ds);
                        output_ds = output_ds\<lparr>GeoTransform := GeoTransform raster_ds\<rparr>;
                        output_ds = output_ds\<lparr>Projection := Projection raster_ds\<rparr>;
                        output_ds = WriteArray1 output_ds thresholded_data;
                        output_ds = SetNoDataValue1 output_ds NaN
                    in Inr (output_raster_path,
                            write_file w output_raster_path (Raster output_ds))))"

text \<open>
  Observations on a stored raster: the first band of the raster at a path, and the cells
  of a band that do not carry the band's no-data marker.
\<close>

definition raster_band :: "'v world \<Rightarrow> path \<Rightarrow> band option" where
  "raster_band w p = (case gdal_Open w p of None \<Rightarrow> None | Some ds \<Rightarrow> GetRasterBand1 ds)"

definition data_cells :: "band \<Rightarrow> (nat \<times> nat) list" where
  "data_cells b =
     concat (map (\<lambda>i. map (\<lambda>j. (i, j))
                    (filter (\<lambda>j. Some (band_data b ! i ! j) \<noteq> NoDataValue b)
                       [0..<length (band_data b ! i)]))
               [0..<length (band_data b)])"

section \<open>Polygonization\<close>

text \<open>\<^verbatim>\<open>f.endswith(suffix)\<close>.\<close>

definition endswith :: "string \<Rightarrow> string \<Rightarrow> bool" where
  "endswith s suf = (length suf \<le> length s \<and> drop (length s - length suf) s = suf)"

text \<open>
  The companion files of a shapefile lie beside it under the same name with another
  extension. The script only ever passes an output path that ends in \<^verbatim>\<open>.shp\<close>.
\<close>

definition shapefile_part :: "path \<Rightarrow> string \<Rightarrow> path" where
  "shapefile_part p ext =
     (if endswith p ''.shp'' then take (length p - 4) p @ ext else p @ ext)"

text \<open>
  What the processing step leaves behind when it succeeds. The script's header lists
  the files produced for each threshold: \<^verbatim>\<open>.dbf\<close>, \<^verbatim>\<open>.shp\<close>, \<^verbatim>\<open>.shx\<close>, \<^verbatim>\<open>.tif\<close> and
  \<^verbatim>\<open>.tif.aux.xml\<close>. The \<^verbatim>\<open>.tif\<close> is the raster written before; this step adds the
  \<^verbatim>\<open>.aux.xml\<close> beside the raster it read and the shapefile with its two companions.
  Only the shapefile itself is logged as a dataset written.
\<close>

definition write_vector :: "'v world \<Rightarrow> path \<Rightarrow> path \<Rightarrow> 'v \<Rightarrow> 'v world" where
  "write_vector w input_raster_path output_vector_path v =
     (let w = put_companion w (input_raster_path @ ''.aux.xml'');
          w = put_companion w (shapefile_part output_vector_path ''.shx'');
          w = put_companion w (shapefile_part output_vector_path ''.dbf'')
      in write_file w output_vector_path (Vector v))"

text \<open>
  \<^verbatim>\<open>processing.run("gdal:polygonize", {INPUT, BAND: 1, FIELD: 'DN', OUTPUT})\<close>: the
  algorithm reads the raster at the input path and writes the traced polygons at the
  output path; it raises when it cannot read its input, cannot create its output, or
  fails. An output that exists already is taken to be replaced by the new trace.
\<close>

definition raster_to_vector ::
  "'v env \<Rightarrow> 'v world \<Rightarrow> path \<Rightarrow> path \<Rightarrow> (unit, 'v) outcome" where
  "raster_to_vector env w input_raster_path output_vector_path =
     (case gdal_Open w input_raster_path of
        None \<Rightarrow> Inl (QgsProcessingException, w)
      | Some ds \<Rightarrow>
          if \<not> can_create env output_vector_path then Inl (QgsProcessingException, w)
          else (case polygonize env ds of
                  None \<Rightarrow> Inl (QgsProcessingException, w)
                | Some v \<Rightarrow>
                    Inr ((), write_vector w input_raster_path output_vector_path v)))"

section \<open>Per-raster orchestration\<close>

text \<open>\<^verbatim>\<open>os.path.basename\<close>: what follows the last slash.\<close>

definition basename :: "path \<Rightarrow> string" where
  "basename p = rev (takeWhile (\<lambda>c. c \<noteq> CHR ''/'') (rev p))"

text \<open>\<^verbatim>\<open>os.path.basename(input_raster_path).split('.')[0]\<close>: up to the first dot.\<close>

definition file_stem :: "path \<Rightarrow> string" where
  "file_stem p = takeWhile (\<lambda>c. c \<noteq> CHR ''.'') (basename p)"

definition threshold_raster_path :: "'v env \<Rightarrow> path \<Rightarrow> path \<Rightarrow> pynum \<Rightarrow> path" where
  "threshold_raster_path env input_raster_path output_dir threshold =
     output_dir @ ''/'' @ file_stem input_raster_path @ ''_threshold_''
       @ format_threshold env threshold @ ''.tif''"

definition threshold_vector_path :: "'v env \<Rightarrow> path \<Rightarrow> path \<Rightarrow> pynum \<Rightarrow> path" where
  "threshold_vector_path env input_raster_path output_dir threshold =
     output_dir @ ''/'' @ file_stem input_raster_path @ ''_threshold_''
       @ format_threshold env threshold @ ''_polygons.shp''"

definition threshold_layer :: "'v env \<Rightarrow> path \<Rightarrow> path \<Rightarrow> pynum \<Rightarrow> layer" where
  "threshold_layer env input_raster_path output_dir threshold =
     \<lparr>layer_source = threshold_vector_path env input_raster_path output_dir threshold,
      layer_name = file_stem input_raster_path @ ''_Threshold ''
                     @ format_threshold env threshold,
      layer_provider = ''ogr''\<rparr>"

text \<open>\<^verbatim>\<open>vector_layer.isValid()\<close>: the layer's source must hold vector data QGIS accepts.\<close>

definition isValid :: "'v env \<Rightarrow> 'v world \<Rightarrow> layer \<Rightarrow> bool" where
  "isValid env w l =
     (case files w (layer_source l) of Some (Vector v) \<Rightarrow> vector_valid env v | _ \<Rightarrow> False)"

text \<open>\<^verbatim>\<open>QgsProject.instance().addMapLayer(vector_layer)\<close>.\<close>

definition addMapLayer :: "'v world \<Rightarrow> layer \<Rightarrow> 'v world" where
  "addMapLayer w l = w\<lparr>project_layers := project_layers w @ [l]\<rparr>"

text \<open>
  The loop of \<^verbatim>\<open>process_thresholds\<close>, with the list \<^verbatim>\<open>vector_layers\<close> built so far
  as an argument.
\<close>

fun process_thresholds_loop ::
  "'v env \<Rightarrow> path \<Rightarrow> path \<Rightarrow> pynum list \<Rightarrow> layer list \<Rightarrow> 'v world
     \<Rightarrow> (layer list, 'v) outcome" where
  "process_thresholds_loop env input_raster_path output_dir [] vector_layers w =
     Inr (vector_layers, w)"
| "process_thresholds_loop env input_raster_path output_dir (threshold # rest) vector_layers w =
     (let output_raster_path = threshold_raster_path env input_raster_path output_dir threshold;
          output_vector_path = threshold_vector_path env input_raster_path output_dir threshold;
          vector_layer = threshold_layer env input_raster_path output_dir threshold
      in (case create_threshold_raster env w input_raster_path output_raster_path threshold of
            Inl fault \<Rightarrow> Inl fault
          | Inr (_, w1) \<Rightarrow>
              (case raster_to_vector env w1 output_raster_path output_vector_path of
                 Inl fault \<Rightarrow> Inl fault
               | Inr (_, w2) \<Rightarrow>
                   (if isValid env w2 vector_layer
                    then process_thresholds_loop env input_raster_path output_dir rest
                           (vector_layers @ [vector_layer]) (addMapLayer w2 vector_layer)
                    else process_thresholds_loop env input_raster_path output_dir rest
                           vector_layers w2))))"

definition process_thresholds ::
  "'v env \<Rightarrow> 'v world \<Rightarrow> path \<Rightarrow> path \<Rightarrow> pynum list \<Rightarrow> (layer list, 'v) outcome" where
  "process_thresholds env w input_raster_path output_dir thresholds =
     process_thresholds_loop env input_raster_path output_dir thresholds [] w"

section \<open>Folder-level orchestration\<close>

text \<open>\<^verbatim>\<open>os.path.join(a, b)\<close> on POSIX paths.\<close>

definition path_join :: "path \<Rightarrow> string \<Rightarrow> path" where
  "path_join a b =
     (if b \<noteq> [] \<and> hd b = CHR ''/'' then b
      else if a = [] \<or> last a = CHR ''/'' then a @ b
      else a @ ''/'' @ b)"

fun process_rasters_loop ::
  "'v env \<Rightarrow> path \<Rightarrow> path \<Rightarrow> pynum list \<Rightarrow> string list \<Rightarrow> 'v world \<Rightarrow> (unit, 'v) outcome" where
  "process_rasters_loop env input_dir output_dir thresholds [] w = Inr ((), w)"
| "process_rasters_loop env input_dir output_dir thresholds (raster_file # rest) w =
     (let input_raster_path = path_join input_dir raster_file
      in (case process_thresholds env w input_raster_path output_dir thresholds of
            Inl fault \<Rightarrow> Inl fault
          | Inr (_, w1) \<Rightarrow> process_rasters_loop env input_dir output_dir thresholds rest w1))"

definition process_rasters_in_folder ::
  "'v env \<Rightarrow> 'v world \<Rightarrow> path \<Rightarrow> path \<Rightarrow> pynum list \<Rightarrow> (unit, 'v) outcome" where
  "process_rasters_in_folder env w input_dir output_dir thresholds =
     (case listdir env input_dir of
        None \<Rightarrow> Inl (OSError, w)
      | Some names \<Rightarrow>
          let raster_files = filter (\<lambda>f. endswith f ''.asc'') names
          in process_rasters_loop env input_dir output_dir thresholds raster_files w)"

section \<open>Observations on a run\<close>

text \<open>The state a call leaves behind, whether it returned or raised.\<close>

definition outcome_world :: "('a, 'v) outcome \<Rightarrow> 'v world" where
  "outcome_world r = (case r of Inl (_, w) \<Rightarrow> w | Inr (_, w) \<Rightarrow> w)"

text \<open>
  The paths one call of \<^verbatim>\<open>process_thresholds\<close> derives, in the order it writes them:
  for each threshold the raster path, then the polygon path.
\<close>

definition output_paths :: "'v env \<Rightarrow> path \<Rightarrow> path \<Rightarrow> pynum list \<Rightarrow> path list" where
  "output_paths env input_raster_path output_dir thresholds =
     concat (map (\<lambda>t. [threshold_raster_path env input_raster_path output_dir t,
                        threshold_vector_path env input_raster_path output_dir t])
               thresholds)"

text \<open>
  Every path one call of \<^verbatim>\<open>process_thresholds\<close> may write to: for each threshold the
  raster, its \<^verbatim>\<open>.aux.xml\<close>, the two companions of the shapefile, and the shapefile.
\<close>

definition touched_paths :: "'v env \<Rightarrow> path \<Rightarrow> path \<Rightarrow> pynum list \<Rightarrow> path list" where
  "touched_paths env input_raster_path output_dir thresholds =
     concat (map (\<lambda>t. [threshold_raster_path env input_raster_path output_dir t,
                        threshold_raster_path env input_raster_path output_dir t @ ''.aux.xml'',
                        shapefile_part
                          (threshold_vector_path env input_raster_path output_dir t) ''.shx'',
                        shapefile_part
                          (threshold_vector_path env input_raster_path output_dir t) ''.dbf'',
                        threshold_vector_path env input_raster_path output_dir t])
               thresholds)"

definition folder_touched_paths ::
  "'v env \<Rightarrow> path \<Rightarrow> path \<Rightarrow> pynum list \<Rightarrow> string list \<Rightarrow> path list" where
  "folder_touched_paths env input_dir output_dir thresholds raster_files =
     concat (map (\<lambda>f. touched_paths env (path_join input_dir f) output_dir thresholds)
               raster_files)"

text \<open>The paths a folder run derives: those of each raster file, file after file.\<close>

definition folder_output_paths ::
  "'v env \<Rightarrow> path \<Rightarrow> path \<Rightarrow> pynum list \<Rightarrow> string list \<Rightarrow> path list" where
  "folder_output_paths env input_dir output_dir thresholds raster_files =
     concat (map (\<lambda>f. output_paths env (path_join input_dir f) output_dir thresholds)
               raster_files)"

text \<open>
  The dataset that masking the first band \<open>b\<close> of \<open>src\<close> at threshold \<open>t\<close> writes, and
  whether the layer traced from it validates: the tracing must succeed and QGIS must
  accept its result.
\<close>

definition threshold_dataset :: "dataset \<Rightarrow> band \<Rightarrow> pynum \<Rightarrow> dataset" where
  "threshold_dataset src b t =
     \<lparr>RasterXSize = RasterXSize src, RasterYSize = RasterYSize src,
      GeoTransform = GeoTransform src, Projection = Projection src,
      bands = [\<lparr>band_data = map (map to_float32) (np_where_ge (DataType b) (band_data b) t),
                NoDataValue = Some NaN, DataType = GDT_Float32\<rparr>]\<rparr>"

definition layer_loads :: "'v env \<Rightarrow> 'v world \<Rightarrow> path \<Rightarrow> pynum \<Rightarrow> bool" where
  "layer_loads env w input_raster_path t =
     (case gdal_Open w input_raster_path of
        None \<Rightarrow> False
      | Some src \<Rightarrow>
          (case GetRasterBand1 src of
             None \<Rightarrow> False
           | Some b \<Rightarrow>
               (case polygonize env (threshold_dataset src b t) of
                  None \<Rightarrow> False
                | Some v \<Rightarrow> vector_valid env v)))"

text \<open>The layers a folder run registers when it returns: per file, those that validate.\<close>

definition folder_layers ::
  "'v env \<Rightarrow> 'v world \<Rightarrow> path \<Rightarrow> path \<Rightarrow> pynum list \<Rightarrow> string list \<Rightarrow> layer list" where
  "folder_layers env w input_dir output_dir thresholds raster_files =
     concat (map (\<lambda>f. map (threshold_layer env (path_join input_dir f) output_dir)
                        (filter (layer_loads env w (path_join input_dir f)) thresholds))
               raster_files)"

text \<open>
  The condition under which \<^verbatim>\<open>process_thresholds\<close> meets no fault: the input opens
  and has a band, every derived path can be created, and the tracing succeeds on every
  masked raster. With no threshold there is nothing that can raise.
\<close>

definition host_serves :: "'v env \<Rightarrow> 'v world \<Rightarrow> path \<Rightarrow> path \<Rightarrow> pynum list \<Rightarrow> bool" where
  "host_serves env w input_raster_path output_dir thresholds =
     (case gdal_Open w input_raster_path of
        None \<Rightarrow> thresholds = []
      | Some src \<Rightarrow>
          (case GetRasterBand1 src of
             None \<Rightarrow> thresholds = []
           | Some b \<Rightarrow>
               list_all
                 (\<lambda>t. can_create env (threshold_raster_path env input_raster_path output_dir t)
                    \<and> can_create env (threshold_vector_path env input_raster_path output_dir t)
                    \<and> polygonize env (threshold_dataset src b t) \<noteq> None)
                 thresholds))"

section \<open>A concrete host and input\<close>

text \<open>
  A small host used to run the definitions: a \<^verbatim>\<open>Float32\<close> raster with the cells
  \<open>0.0625, 0.25, 0.5, 0.9375\<close>, stored under two names of which one has two dots, a
  \<^verbatim>\<open>Float32\<close> raster with the cells \<open>1, 1.5\<close>, an \<^verbatim>\<open>Int32\<close> raster with the cell
  \<open>16777217\<close>, a tracing routine that returns the cells carrying data, and a validity
  check that rejects an empty trace.
\<close>

definition demo_format :: "pynum \<Rightarrow> string" where
  "demo_format t =
     (case t of
        PyInt i \<Rightarrow> (if i = 0 then ''0'' else ''1'')
      | PyFloat v \<Rightarrow> (if v = Fin 0.5 then ''0.5'' else ''0.9''))"

definition demo_band :: band where
  "demo_band = \<lparr>band_data = [[Fin 0.0625, Fin 0.25, Fin 0.5, Fin 0.9375]],
                 NoDataValue = Some (Fin (-9999)), DataType = GDT_Float32\<rparr>"

definition demo_raster :: dataset where
  "demo_raster =
     \<lparr>RasterXSize = 4, RasterYSize = 1, GeoTransform = [10, 2, 0, 50, 0, -2],
      Projection = ''EPSG:32615'', bands = [demo_band]\<rparr>"

definition demo_near_one :: dataset where
  "demo_near_one =
     \<lparr>RasterXSize = 2, RasterYSize = 1, GeoTransform = [10, 2, 0, 50, 0, -2],
      Projection = [],
      bands = [\<lparr>band_data = [[Fin 1, Fin 1.5]], NoDataValue = Some (Fin (-9999)),
                DataType = GDT_Float32\<rparr>]\<rparr>"

definition demo_big_int :: dataset where
  "demo_big_int =
     \<lparr>RasterXSize = 1, RasterYSize = 1, GeoTransform = [10, 2, 0, 50, 0, -2],
      Projection = [],
      bands = [\<lparr>band_data = [[Fin 16777217]], NoDataValue = Some (Fin (-9999)),
                DataType = GDT_Int32\<rparr>]\<rparr>"

definition demo_env :: "((nat \<times> nat) list) env" where
  "demo_env =
     \<lparr>format_threshold = demo_format,
      polygonize = (\<lambda>ds. case GetRasterBand1 ds of None \<Rightarrow> None
                          | Some b \<Rightarrow> Some (data_cells b)),
      vector_valid = (\<lambda>v. v \<noteq> []),
      listdir = (\<lambda>d. if d = ''in'' then Some [''a.asc'', ''notes.txt'', ''b.c.asc'']
                      else if d = ''empty'' then Some []
                      else if d = ''docs'' then Some [''notes.txt'', ''a.asc.bak'']
                      else None),
      can_create = (\<lambda>p. True)\<rparr>"

definition demo_world :: "((nat \<times> nat) list) world" where
  "demo_world =
     \<lparr>files = [''in/a.asc'' \<mapsto> Raster demo_raster, ''in/b.c.asc'' \<mapsto> Raster demo_raster,
               ''probe/near.asc'' \<mapsto> Raster demo_near_one,
               ''probe/big.asc'' \<mapsto> Raster demo_big_int],
      project_layers = [], writes = []\<rparr>"

definition demo_thresholds :: "pynum list" where
  "demo_thresholds = [PyFloat (Fin 0.5), PyInt 1, PyFloat (Fin 0.9)]"

definition demo_duplicates :: "pynum list" where
  "demo_duplicates = [PyFloat (Fin 0.5), PyFloat (Fin 0.5)]"

section \<open>Properties of the rounding\<close>

lemma round_half_even_of_int [simp]: "round_half_even (of_int k) = k"
  by (simp add: round_half_even_def)

lemma round_half_even_numeral [simp]: "round_half_even (numeral k) = numeral k"
  using round_half_even_of_int[of "numeral k"] by simp

lemma round_half_even_zero [simp]: "round_half_even 0 = 0"
  using round_half_even_of_int[of 0] by simp

lemma round_half_even_bounds:
  "\<lfloor>m\<rfloor> \<le> round_half_even m" "round_half_even m \<le> \<lfloor>m\<rfloor> + 1"
  by (simp_all add: round_half_even_def Let_def)

lemma round_half_even_mono:
  assumes "m \<le> m'"
  shows "round_half_even m \<le> round_half_even m'"
proof (cases "\<lfloor>m\<rfloor> = \<lfloor>m'\<rfloor>")
  case True
  with assms show ?thesis
    by (auto simp: round_half_even_def Let_def)
next
  case False
  with assms have "\<lfloor>m\<rfloor> < \<lfloor>m'\<rfloor>"
    using floor_mono[OF assms] by linarith
  with round_half_even_bounds(2)[of m] round_half_even_bounds(1)[of m']
  show ?thesis by linarith
qed

lemma round_half_even_nonneg: "0 \<le> m \<Longrightarrow> 0 \<le> round_half_even m"
  using round_half_even_mono[of 0 m] round_half_even_of_int[of 0] by simp

lemma binade_from_bounds:
  "e \<le> binade_from n e m \<and> binade_from n e m \<le> e + int n"
proof (induction n arbitrary: e)
  case 0
  show ?case by simp
next
  case (Suc n)
  from Suc[of "e + 1"] show ?case by auto
qed

lemma binade_from_lower:
  "e < binade_from n e m \<Longrightarrow> 2 powi (binade_from n e m) \<le> m"
proof (induction n arbitrary: e)
  case 0
  then show ?case by simp
next
  case (Suc n)
  show ?case
  proof (cases "2 powi (e + 1) \<le> m")
    case True
    show ?thesis
    proof (cases "e + 1 < binade_from n (e + 1) m")
      case True
      with Suc.IH[OF this] \<open>2 powi (e + 1) \<le> m\<close> show ?thesis by simp
    next
      case False
      with binade_from_bounds[of "e + 1" n m] have "binade_from n (e + 1) m = e + 1"
        by linarith
      with True show ?thesis by simp
    qed
  next
    case False
    with Suc.prems show ?thesis by simp
  qed
qed

lemma binade_from_upper:
  "binade_from n e m < e + int n \<Longrightarrow> m < 2 powi (binade_from n e m + 1)"
proof (induction n arbitrary: e)
  case 0
  then show ?case by simp
next
  case (Suc n)
  show ?case
  proof (cases "2 powi (e + 1) \<le> m")
    case True
    with Suc.prems have "binade_from n (e + 1) m < (e + 1) + int n" by simp
    from Suc.IH[OF this] True show ?thesis by simp
  next
    case False
    then show ?thesis by simp
  qed
qed

lemma binade_from_mono:
  "m \<le> m' \<Longrightarrow> binade_from n e m \<le> binade_from n e m'"
proof (induction n arbitrary: e)
  case 0
  then show ?case by simp
next
  case (Suc n)
  show ?case
  proof (cases "2 powi (e + 1) \<le> m")
    case True
    with Suc.prems have "2 powi (e + 1) \<le> m'" by linarith
    with True Suc.IH[OF Suc.prems, of "e + 1"] show ?thesis by simp
  next
    case False
    with binade_from_bounds[of e "Suc n" m'] show ?thesis by simp
  qed
qed

lemma binade_from_eq:
  assumes "e \<le> k" and "k \<le> e + int n"
    and "e < k \<Longrightarrow> 2 powi k \<le> m"
    and "k < e + int n \<Longrightarrow> m < 2 powi (k + 1)"
  shows "binade_from n e m = k"
  using assms
proof (induction n arbitrary: e)
  case 0
  then show ?case by simp
next
  case (Suc n)
  show ?case
  proof (cases "e = k")
    case True
    with Suc.prems(4) have "m < 2 powi (e + 1)" by simp
    with True show ?thesis by simp
  next
    case False
    with Suc.prems(1) have lt: "e < k" by simp
    then have "2 powi (e + 1) \<le> (2::real) powi k"
      by (intro power_int_increasing) simp_all
    with Suc.prems(3)[OF lt] have ge: "2 powi (e + 1) \<le> m" by linarith
    have "binade_from n (e + 1) m = k"
      using lt Suc.prems by (intro Suc.IH) simp_all
    with ge show ?thesis by simp
  qed
qed


lemma binade32_range: "- 126 \<le> binade32 m" "binade32 m \<le> 128"
  using binade_from_bounds[of "- 126" 254 m] by (simp_all add: binade32_def)

lemma binade32_lower: "- 126 < binade32 m \<Longrightarrow> 2 powi (binade32 m) \<le> m"
  unfolding binade32_def by (rule binade_from_lower)

lemma binade32_upper: "binade32 m < 128 \<Longrightarrow> m < 2 powi (binade32 m + 1)"
  unfolding binade32_def using binade_from_upper[of 254 "- 126" m] by simp

lemma binade32_mono: "m \<le> m' \<Longrightarrow> binade32 m \<le> binade32 m'"
  unfolding binade32_def by (rule binade_from_mono)

lemma binade32_eq:
  assumes "- 126 \<le> k" and "k \<le> 128"
    and "- 126 < k \<Longrightarrow> 2 powi k \<le> m"
    and "k < 128 \<Longrightarrow> m < 2 powi (k + 1)"
  shows "binade32 m = k"
  unfolding binade32_def using assms by (intro binade_from_eq) simp_all

lemma two_powi_split: "(2::real) powi (e - 23) * 2 ^ 23 = 2 powi e"
proof -
  have "(2::real) powi (e - 23) * 2 powi 23 = 2 powi (e - 23 + 23)"
    by (subst power_int_add) simp_all
  then show ?thesis by simp
qed

lemma two_powi_succ: "(2::real) powi (e + 1) = 2 * 2 powi e"
  by (simp add: power_int_add)

lemma round_magnitude32_nonneg: "0 \<le> m \<Longrightarrow> 0 \<le> round_magnitude32 m"
  by (simp add: round_magnitude32_def Let_def round_half_even_nonneg)

text \<open>A magnitude below the top of its binade rounds to at most that top.\<close>

lemma round_magnitude32_le_top:
  assumes "m < 2 powi (binade32 m + 1)"
  shows "round_magnitude32 m \<le> 2 powi (binade32 m + 1)"
proof -
  let ?e = "binade32 m"
  let ?q = "(2::real) powi (?e - 23)"
  have q: "0 < ?q" by simp
  have top: "?q * 2 ^ 24 = 2 powi (?e + 1)"
    using two_powi_split[of ?e] by (simp add: two_powi_succ)
  from assms have "m / ?q \<le> 2 ^ 24"
    using q top by (simp add: field_simps)
  then have "round_half_even (m / ?q) \<le> round_half_even 16777216"
    by (intro round_half_even_mono) simp
  then have "round_half_even (m / ?q) \<le> 16777216" by simp
  then have "real_of_int (round_half_even (m / ?q)) \<le> 2 ^ 24"
    by simp
  then have "of_int (round_half_even (m / ?q)) * ?q \<le> 2 ^ 24 * ?q"
    using q by (intro mult_right_mono) simp_all
  with top show ?thesis
    by (simp add: round_magnitude32_def Let_def mult.commute)
qed

text \<open>A magnitude at or above the bottom of its binade rounds to at least that bottom.\<close>

lemma round_magnitude32_ge_bottom:
  assumes "2 powi (binade32 m) \<le> m"
  shows "2 powi (binade32 m) \<le> round_magnitude32 m"
proof -
  let ?e = "binade32 m"
  let ?q = "(2::real) powi (?e - 23)"
  have q: "0 < ?q" by simp
  have bot: "?q * 2 ^ 23 = 2 powi ?e" by (rule two_powi_split)
  from assms have "2 ^ 23 \<le> m / ?q"
    using q bot by (simp add: field_simps)
  then have "round_half_even 8388608 \<le> round_half_even (m / ?q)"
    by (intro round_half_even_mono) simp
  then have "8388608 \<le> round_half_even (m / ?q)" by simp
  then have "2 ^ 23 \<le> real_of_int (round_half_even (m / ?q))"
    by simp
  then have "2 ^ 23 * ?q \<le> of_int (round_half_even (m / ?q)) * ?q"
    using q by (intro mult_right_mono) simp_all
  with bot show ?thesis
    by (simp add: round_magnitude32_def Let_def mult.commute)
qed

lemma round_magnitude32_mono:
  assumes "m \<le> m'"
  shows "round_magnitude32 m \<le> round_magnitude32 m'"
proof -
  from binade32_mono[OF assms] consider "binade32 m = binade32 m'" | "binade32 m < binade32 m'"
    by linarith
  then show ?thesis
  proof cases
    case 1
    let ?q = "(2::real) powi (binade32 m - 23)"
    have q: "0 < ?q" by simp
    from assms q have "m / ?q \<le> m' / ?q" by (simp add: divide_right_mono)
    then have "round_half_even (m / ?q) \<le> round_half_even (m' / ?q)"
      by (rule round_half_even_mono)
    then have "real_of_int (round_half_even (m / ?q)) * ?q
        \<le> real_of_int (round_half_even (m' / ?q)) * ?q"
      using q by (intro mult_right_mono) simp_all
    with 1 show ?thesis by (simp add: round_magnitude32_def Let_def)
  next
    case 2
    with binade32_range(2)[of m'] have "binade32 m < 128" by linarith
    from round_magnitude32_le_top[OF binade32_upper[OF this]]
    have a: "round_magnitude32 m \<le> 2 powi (binade32 m + 1)" .
    from 2 have b: "(2::real) powi (binade32 m + 1) \<le> 2 powi (binade32 m')"
      by (intro power_int_increasing) simp_all
    from 2 binade32_range(1)[of m] have "- 126 < binade32 m'" by linarith
    from round_magnitude32_ge_bottom[OF binade32_lower[OF this]]
    have c: "2 powi (binade32 m') \<le> round_magnitude32 m'" .
    from a b c show ?thesis by linarith
  qed
qed


lemma significand_le:
  assumes "binade32 m < 128"
  shows "round_half_even (m / 2 powi (binade32 m - 23)) \<le> 16777216"
proof -
  let ?q = "(2::real) powi (binade32 m - 23)"
  have q: "0 < ?q" by simp
  have top: "?q * 2 ^ 24 = 2 powi (binade32 m + 1)"
    using two_powi_split[of "binade32 m"] by (simp add: two_powi_succ)
  from binade32_upper[OF assms] have "m / ?q \<le> 2 ^ 24"
    using q top by (simp add: field_simps)
  then have "round_half_even (m / ?q) \<le> round_half_even 16777216"
    by (intro round_half_even_mono) simp
  then show ?thesis by simp
qed

lemma significand_ge:
  assumes "- 126 < binade32 m"
  shows "8388608 \<le> round_half_even (m / 2 powi (binade32 m - 23))"
proof -
  let ?q = "(2::real) powi (binade32 m - 23)"
  have q: "0 < ?q" by simp
  have bot: "?q * 2 ^ 23 = 2 powi (binade32 m)" by (rule two_powi_split)
  from binade32_lower[OF assms] have "2 ^ 23 \<le> m / ?q"
    using q bot by (simp add: field_simps)
  then have "round_half_even 8388608 \<le> round_half_even (m / ?q)"
    by (intro round_half_even_mono) simp
  then show ?thesis by simp
qed

text \<open>A number with a 24-bit significand at an exponent of the format is a fixed point.\<close>

lemma round_magnitude32_fixed:
  fixes n :: int
  assumes n0: "0 \<le> n" and e: "- 126 \<le> e" "e \<le> 128"
    and hi: "e < 128 \<Longrightarrow> n \<le> 16777216"
    and lo: "- 126 < e \<Longrightarrow> 8388608 \<le> n"
  shows "round_magnitude32 (of_int n * 2 powi (e - 23)) = of_int n * 2 powi (e - 23)"
proof -
  let ?q = "(2::real) powi (e - 23)"
  let ?y = "real_of_int n * ?q"
  have q: "0 < ?q" by simp
  have bot: "?q * 2 ^ 23 = 2 powi e" by (rule two_powi_split)
  have top: "?q * 2 ^ 24 = 2 powi (e + 1)"
    using bot by (simp add: two_powi_succ)
  show ?thesis
  proof (cases "e < 128 \<and> n = 16777216")
    case True
    then have y: "?y = 2 powi (e + 1)" using top by (simp add: mult.commute)
    have b: "binade32 ?y = e + 1"
    proof (rule binade32_eq)
      show "- 126 \<le> e + 1" using e by simp
      show "e + 1 \<le> 128" using True by simp
      show "2 powi (e + 1) \<le> ?y" using y by simp
      show "?y < 2 powi (e + 1 + 1)"
        unfolding y by (intro power_int_strict_increasing) simp_all
    qed
    have "?y / 2 powi (e + 1 - 23) = 2 ^ 23"
      unfolding y using two_powi_split[of "e + 1"] by (simp add: field_simps)
    then have "round_half_even (?y / 2 powi (e + 1 - 23)) = 8388608" by simp
    then have "round_magnitude32 ?y = 8388608 * 2 powi (e + 1 - 23)"
      by (simp add: round_magnitude32_def Let_def b)
    also have "\<dots> = 2 powi (e + 1)"
      using two_powi_split[of "e + 1"] by (simp add: mult.commute)
    finally show ?thesis using y by simp
  next
    case False
    have b: "binade32 ?y = e"
    proof (rule binade32_eq)
      show "- 126 \<le> e" "e \<le> 128" using e by simp_all
    next
      assume "- 126 < e"
      from lo[OF this] have "2 ^ 23 \<le> real_of_int n" by simp
      then have "2 ^ 23 * ?q \<le> ?y" using q by (intro mult_right_mono) simp_all
      with bot show "2 powi e \<le> ?y" by (simp add: mult.commute)
    next
      assume lt: "e < 128"
      with False hi have "n < 16777216" by fastforce
      then have "real_of_int n < 2 ^ 24" by simp
      then have "?y < 2 ^ 24 * ?q" using q by (intro mult_strict_right_mono) simp_all
      with top show "?y < 2 powi (e + 1)" by (simp add: mult.commute)
    qed
    have "?y / ?q = of_int n" using q by simp
    then show ?thesis
      by (simp add: round_magnitude32_def Let_def b)
  qed
qed

lemma round_magnitude32_idem:
  assumes "0 \<le> m"
  shows "round_magnitude32 (round_magnitude32 m) = round_magnitude32 m"
proof -
  let ?e = "binade32 m"
  let ?n = "round_half_even (m / 2 powi (?e - 23))"
  have "0 \<le> m / 2 powi (?e - 23)" using assms by simp
  then have n0: "0 \<le> ?n" by (rule round_half_even_nonneg)
  have "round_magnitude32 (of_int ?n * 2 powi (?e - 23)) = of_int ?n * 2 powi (?e - 23)"
    using n0 binade32_range[of m] significand_le[of m] significand_ge[of m]
    by (intro round_magnitude32_fixed) simp_all
  then show ?thesis by (simp add: round_magnitude32_def Let_def)
qed

lemma round_magnitude32_zero [simp]: "round_magnitude32 0 = 0"
  by (simp add: round_magnitude32_def)

lemma round_binary32_mono:
  assumes "x \<le> y"
  shows "round_binary32 x \<le> round_binary32 y"
proof -
  consider "0 \<le> x" | "x < 0" "0 \<le> y" | "y < 0" using assms by linarith
  then show ?thesis
  proof cases
    case 1
    with assms have "0 \<le> y" by simp
    from round_magnitude32_mono[OF assms] 1 this
    have "round_magnitude32 \<bar>x\<bar> \<le> round_magnitude32 \<bar>y\<bar>" by simp
    moreover have "sgn x * round_magnitude32 \<bar>x\<bar> = round_magnitude32 \<bar>x\<bar>"
      using 1 by (cases "x = 0") (simp_all add: sgn_if)
    moreover have "sgn y * round_magnitude32 \<bar>y\<bar> = round_magnitude32 \<bar>y\<bar>"
      using \<open>0 \<le> y\<close> by (cases "y = 0") (simp_all add: sgn_if)
    ultimately show ?thesis by (simp only: round_binary32_def)
  next
    case 2
    have "round_binary32 x \<le> 0"
      using 2(1) round_magnitude32_nonneg[of "\<bar>x\<bar>"] by (simp add: round_binary32_def sgn_if)
    moreover have "0 \<le> round_binary32 y"
      using 2(2) round_magnitude32_nonneg[of "\<bar>y\<bar>"]
      by (cases "y = 0") (simp_all add: round_binary32_def sgn_if)
    ultimately show ?thesis by linarith
  next
    case 3
    with assms have x: "x < 0" by simp
    from assms 3 x have "\<bar>y\<bar> \<le> \<bar>x\<bar>" by simp
    from round_magnitude32_mono[OF this] x 3 show ?thesis
      by (simp add: round_binary32_def sgn_if)
  qed
qed

lemma round_binary32_idem: "round_binary32 (round_binary32 x) = round_binary32 x"
proof (cases "round_magnitude32 \<bar>x\<bar> = 0 \<or> x = 0")
  case True
  then show ?thesis by (auto simp: round_binary32_def)
next
  case False
  then have pos: "0 < round_magnitude32 \<bar>x\<bar>" and x: "x \<noteq> 0"
    using round_magnitude32_nonneg[of "\<bar>x\<bar>"] by simp_all
  have abs: "\<bar>sgn x * round_magnitude32 \<bar>x\<bar>\<bar> = round_magnitude32 \<bar>x\<bar>"
    using pos x by (simp add: abs_mult)
  have sg: "sgn (sgn x * round_magnitude32 \<bar>x\<bar>) = sgn x"
    using pos x by (simp add: sgn_mult)
  show ?thesis
    unfolding round_binary32_def abs sg
    by (simp add: round_magnitude32_idem)
qed

lemma to_float32_NaN_iff [simp]: "to_float32 v = NaN \<longleftrightarrow> v = NaN"
  by (cases v) (simp_all add: Let_def)

lemma to_float32_idem [simp]: "to_float32 (to_float32 v) = to_float32 v"
  by (cases v) (simp_all add: Let_def round_binary32_idem)

lemma fval_ge_trans: "fval_ge a b \<Longrightarrow> fval_ge b c \<Longrightarrow> fval_ge a c"
  by (cases a; cases b; cases c) auto

lemma fval_less_imp_ge: "fval_less a b \<Longrightarrow> fval_ge b a"
  by (cases a; cases b) auto

lemma to_float32_mono: "fval_ge a b \<Longrightarrow> fval_ge (to_float32 a) (to_float32 b)"
proof (cases a; cases b)
  fix x y assume ab: "a = Fin x" "b = Fin y" and ge: "fval_ge a b"
  then have "y \<le> x" by simp
  then have "round_binary32 y \<le> round_binary32 x" by (rule round_binary32_mono)
  moreover have "- (2 powi 128) < (2::real) powi 128" by simp
  ultimately show "fval_ge (to_float32 a) (to_float32 b)"
    unfolding ab by (auto simp: Let_def simp del: power_int_numeral)
qed (auto simp: Let_def)

text \<open>Evaluating the rounding at a number whose binade is known.\<close>

lemma round_binary32_at:
  assumes "0 \<le> x" and "- 126 \<le> k" and "k < 128"
    and "- 126 < k \<Longrightarrow> 2 powi k \<le> x" and "x < 2 powi (k + 1)"
  shows "round_binary32 x = of_int (round_half_even (x / 2 powi (k - 23))) * 2 powi (k - 23)"
proof -
  have b: "binade32 x = k"
    using assms by (intro binade32_eq) simp_all
  show ?thesis
  proof (cases "x = 0")
    case True
    then show ?thesis by (simp add: round_binary32_def)
  next
    case False
    with assms(1) have "sgn x = 1" "\<bar>x\<bar> = x" by (simp_all add: sgn_if)
    then show ?thesis by (simp add: round_binary32_def round_magnitude32_def Let_def b)
  qed
qed

lemma round_half_even_floor:
  "round_half_even m =
     (if m - of_int \<lfloor>m\<rfloor> < 1 / 2 then \<lfloor>m\<rfloor>
      else if 1 / 2 < m - of_int \<lfloor>m\<rfloor> then \<lfloor>m\<rfloor> + 1
      else if even \<lfloor>m\<rfloor> then \<lfloor>m\<rfloor> else \<lfloor>m\<rfloor> + 1)"
  by (simp add: round_half_even_def Let_def)

lemma r32_half: "round_binary32 (1 / 2) = 1 / 2"
  using round_binary32_at[of "1 / 2" "- 1"] by simp

lemma r32_one: "round_binary32 1 = 1"
  using round_binary32_at[of 1 0] by simp

lemma r32_near_one: "round_binary32 1.00000001 = 1"
  using round_binary32_at[of "1.00000001" 0] by (simp add: round_half_even_floor)

lemma r32_nine_tenths: "round_binary32 0.9 = 15099494 / 16777216"
  using round_binary32_at[of "0.9" "- 1"] by (simp add: round_half_even_floor)

lemma r32_big_odd: "round_binary32 16777217 = 16777216"
  using round_binary32_at[of 16777217 24] by (simp add: round_half_even_floor)

section \<open>Properties of threshold masking\<close>

lemma outcome_world_simps [simp]:
  "outcome_world (Inl (e, w)) = w" "outcome_world (Inr (x, w)) = w"
  by (simp_all add: outcome_world_def)

lemma create_threshold_raster_returns:
  assumes "gdal_Open w inp = Some src" and "GetRasterBand1 src = Some b"
    and "can_create env out"
  shows "create_threshold_raster env w inp out t =
           Inr (out, write_file w out (Raster (threshold_dataset src b t)))"
  using assms
  by (simp add: create_threshold_raster_def driver_Create_def WriteArray1_def
      SetNoDataValue1_def threshold_dataset_def Let_def)

lemma create_threshold_raster_InrD:
  assumes "create_threshold_raster env w inp out t = Inr (r, w')"
  shows "\<exists>src b. gdal_Open w inp = Some src \<and> GetRasterBand1 src = Some b
           \<and> can_create env out"
  using assms
  by (auto simp: create_threshold_raster_def Let_def split: option.splits if_splits)

lemma raster_band_write_file:
  "raster_band (write_file w p (Raster ds)) p = GetRasterBand1 ds"
  by (simp add: raster_band_def gdal_Open_def write_file_def)

lemma gdal_Open_write_file:
  "gdal_Open (write_file w p (Raster ds)) p = Some ds"
  by (simp add: gdal_Open_def write_file_def)

text \<open>The band that masking writes, and one cell of it.\<close>

lemma threshold_dataset_band:
  "GetRasterBand1 (threshold_dataset src b t) =
     Some \<lparr>band_data = map (map to_float32) (np_where_ge (DataType b) (band_data b) t),
           NoDataValue = Some NaN, DataType = GDT_Float32\<rparr>"
  by (simp add: GetRasterBand1_def threshold_dataset_def)

lemma np_where_ge_nth:
  "i < length arr \<Longrightarrow> j < length (arr ! i) \<Longrightarrow>
   np_where_ge dt arr t ! i ! j =
     (if fval_ge (arr ! i ! j) (threshold_as dt t) then arr ! i ! j else NaN)"
  by (simp add: np_where_ge_def)

lemma np_where_ge_length [simp]: "length (np_where_ge dt arr t) = length arr"
  by (simp add: np_where_ge_def)

lemma np_where_ge_row_length [simp]:
  "i < length arr \<Longrightarrow> length (np_where_ge dt arr t ! i) = length (arr ! i)"
  by (simp add: np_where_ge_def)

lemma np_where_ge_shape: "map length (np_where_ge dt arr t) = map length arr"
  by (simp add: np_where_ge_def)

lemma stored_cell:
  assumes "i < length arr" and "j < length (arr ! i)"
  shows "map (map to_float32) (np_where_ge dt arr t) ! i ! j =
     (if fval_ge (arr ! i ! j) (threshold_as dt t) then to_float32 (arr ! i ! j) else NaN)"
  using assms by (simp add: np_where_ge_nth)

lemma kept_cases:
  "(if fval_ge v c then to_float32 v else NaN) =
     (case (v, c) of
        (Fin x, Fin y) \<Rightarrow> if y \<le> x then to_float32 (Fin x) else NaN
      | (Fin x, NInf) \<Rightarrow> to_float32 (Fin x)
      | (PInf, Fin y) \<Rightarrow> PInf
      | (PInf, PInf) \<Rightarrow> PInf
      | (PInf, NInf) \<Rightarrow> PInf
      | (NInf, NInf) \<Rightarrow> NInf
      | _ \<Rightarrow> NaN)"
  by (cases v; cases c) simp_all

lemma threshold_as_if:
  "threshold_as dt t = (if dt = GDT_Float32 then to_float32 (num_value t) else num_value t)"
  by (cases dt) (simp_all add: threshold_as_def)

lemma set_data_cells:
  "set (data_cells b) =
     {(i, j). i < length (band_data b) \<and> j < length (band_data b ! i)
              \<and> Some (band_data b ! i ! j) \<noteq> NoDataValue b}"
  by (auto simp: data_cells_def)

lemma fval_ge_not_NaN: "fval_ge v c \<Longrightarrow> v \<noteq> NaN"
  by (cases v) simp_all

lemma threshold_as_mono:
  assumes "fval_less (num_value t1) (num_value t2)"
  shows "fval_ge (threshold_as dt t2) (threshold_as dt t1)"
  using fval_less_imp_ge[OF assms]
  by (cases dt) (simp_all add: threshold_as_def to_float32_mono)

text \<open>A value kept by one run is kept again when the raster written is masked anew.\<close>

lemma rethreshold:
  assumes "fval_ge v (threshold_as dt t)"
  shows "fval_ge (to_float32 v) (threshold_as GDT_Float32 t)"
proof (cases "dt = GDT_Float32")
  case True
  with assms have "fval_ge v (to_float32 (num_value t))" by (simp add: threshold_as_def)
  from to_float32_mono[OF this] show ?thesis by (simp add: threshold_as_def)
next
  case False
  with assms have "fval_ge v (num_value t)" by (simp add: threshold_as_if)
  from to_float32_mono[OF this] show ?thesis by (simp add: threshold_as_def)
qed

lemma remask_cell:
  "to_float32 (if fval_ge (to_float32 (if fval_ge v (threshold_as dt t) then v else NaN))
                    (threshold_as GDT_Float32 t)
               then to_float32 (if fval_ge v (threshold_as dt t) then v else NaN) else NaN)
   = to_float32 (if fval_ge v (threshold_as dt t) then v else NaN)"
  by (simp add: rethreshold)

lemma remask:
  "map (map to_float32)
     (np_where_ge GDT_Float32 (map (map to_float32) (np_where_ge dt arr t)) t)
   = map (map to_float32) (np_where_ge dt arr t)"
  by (simp add: np_where_ge_def comp_def remask_cell)

lemma threshold_dataset_idem:
  assumes "GetRasterBand1 (threshold_dataset src b t) = Some ob"
  shows "threshold_dataset (threshold_dataset src b t) ob t = threshold_dataset src b t"
proof -
  from assms have ob: "ob = \<lparr>band_data = map (map to_float32)
        (np_where_ge (DataType b) (band_data b) t),
      NoDataValue = Some NaN, DataType = GDT_Float32\<rparr>"
    by (simp add: threshold_dataset_band)
  show ?thesis
    unfolding ob by (simp add: threshold_dataset_def remask)
qed

lemma demo_open: "gdal_Open demo_world ''in/a.asc'' = Some demo_raster"
  by (simp add: gdal_Open_def demo_world_def)

lemma demo_band1: "GetRasterBand1 demo_raster = Some demo_band"
  by (simp add: GetRasterBand1_def demo_raster_def)

lemma demo_can_create: "can_create demo_env p"
  by (simp add: demo_env_def)

lemma to_float32_half: "to_float32 (Fin (1 / 2)) = Fin (1 / 2)"
  unfolding to_float32.simps r32_half Let_def by simp

lemma to_float32_near_one: "to_float32 (Fin 1.00000001) = Fin 1"
  unfolding to_float32.simps r32_near_one Let_def by simp

lemma to_float32_one: "to_float32 (Fin 1) = Fin 1"
  unfolding to_float32.simps r32_one Let_def by simp

lemma to_float32_big_odd: "to_float32 (Fin 16777217) = Fin 16777216"
  unfolding to_float32.simps r32_big_odd Let_def by simp

declare to_float32.simps(1) [simp del]

lemma demo_open_near: "gdal_Open demo_world ''probe/near.asc'' = Some demo_near_one"
  by (simp add: gdal_Open_def demo_world_def)

lemma demo_open_big: "gdal_Open demo_world ''probe/big.asc'' = Some demo_big_int"
  by (simp add: gdal_Open_def demo_world_def)

lemma demo_near_band:
  "GetRasterBand1 demo_near_one =
     Some \<lparr>band_data = [[Fin 1, Fin 1.5]], NoDataValue = Some (Fin (-9999)),
           DataType = GDT_Float32\<rparr>"
  by (simp add: GetRasterBand1_def demo_near_one_def)

lemma demo_big_band:
  "GetRasterBand1 demo_big_int =
     Some \<lparr>band_data = [[Fin 16777217]], NoDataValue = Some (Fin (-9999)),
           DataType = GDT_Int32\<rparr>"
  by (simp add: GetRasterBand1_def demo_big_int_def)

text \<open>
  Claim C1, as amended. For every source raster, every cell \<open>c = (i, j)\<close> of its array and
  every threshold \<open>t\<close>, the masking operation returns and the \<^verbatim>\<open>Float32\<close> band it wrote
  holds at \<open>c\<close> the source value converted to binary32 when that value is at least the
  threshold as NumPy compares it (the threshold rounded to binary32 when the source band
  is \<^verbatim>\<open>Float32\<close>, the threshold itself otherwise), and the no-data marker (NaN, which is
  also recorded as the band's no-data value) otherwise. A comparison with NaN on either
  side fails, and the infinities compare as in IEEE arithmetic.
\<close>

theorem create_threshold_raster_cell:
  assumes "gdal_Open w inp = Some src" and "GetRasterBand1 src = Some b"
    and "can_create env out"
    and "i < length (band_data b)" and "j < length (band_data b ! i)"
  shows "\<exists>w' ob. create_threshold_raster env w inp out t = Inr (out, w')
           \<and> raster_band w' out = Some ob
           \<and> NoDataValue ob = Some NaN \<and> DataType ob = GDT_Float32
           \<and> band_data ob ! i ! j =
               (case (band_data b ! i ! j,
                      if DataType b = GDT_Float32 then to_float32 (num_value t)
                      else num_value t) of
                  (Fin x, Fin y) \<Rightarrow> if y \<le> x then to_float32 (Fin x) else NaN
                | (Fin x, NInf) \<Rightarrow> to_float32 (Fin x)
                | (PInf, Fin y) \<Rightarrow> PInf
                | (PInf, PInf) \<Rightarrow> PInf
                | (PInf, NInf) \<Rightarrow> PInf
                | (NInf, NInf) \<Rightarrow> NInf
                | _ \<Rightarrow> NaN)"
proof -
  have run: "create_threshold_raster env w inp out t =
      Inr (out, write_file w out (Raster (threshold_dataset src b t)))"
    using assms(1-3) by (rule create_threshold_raster_returns)
  have band: "raster_band (write_file w out (Raster (threshold_dataset src b t))) out =
      Some \<lparr>band_data = map (map to_float32) (np_where_ge (DataType b) (band_data b) t),
            NoDataValue = Some NaN, DataType = GDT_Float32\<rparr>"
    by (simp add: raster_band_write_file threshold_dataset_band)
  have cell: "map (map to_float32) (np_where_ge (DataType b) (band_data b) t) ! i ! j =
      (if fval_ge (band_data b ! i ! j) (threshold_as (DataType b) t)
       then to_float32 (band_data b ! i ! j) else NaN)"
    using assms(4,5) by (rule stored_cell)
  show ?thesis
    unfolding run using band
    by (simp add: cell kept_cases threshold_as_if)
qed

theorem create_threshold_raster_cell_witness:
  "\<exists>w' ob. create_threshold_raster demo_env demo_world ''in/a.asc'' ''out/a.tif''
               (PyFloat (Fin 0.5)) = Inr (''out/a.tif'', w')
     \<and> raster_band w' ''out/a.tif'' = Some ob \<and> NoDataValue ob = Some NaN
     \<and> band_data ob ! 0 ! 1 = NaN \<and> band_data ob ! 0 ! 2 = Fin 0.5"
proof -
  have i: "0 < length (band_data demo_band)"
    and j1: "1 < length (band_data demo_band ! 0)"
    and j2: "2 < length (band_data demo_band ! 0)"
    by (simp_all add: demo_band_def)
  from create_threshold_raster_cell [OF demo_open demo_band1 demo_can_create i j1,
      of "''out/a.tif''" "PyFloat (Fin 0.5)"]
    create_threshold_raster_cell [OF demo_open demo_band1 demo_can_create i j2,
      of "''out/a.tif''" "PyFloat (Fin 0.5)"]
  show ?thesis
    by (auto simp add: demo_band_def to_float32_half)
qed

text \<open>
  Claim C1 as stated fails in two ways. NumPy compares a \<^verbatim>\<open>float32\<close> array with the
  threshold rounded to binary32: with the cell \<open>1.0\<close> and the threshold \<open>1.00000001\<close>,
  which rounds to \<open>1.0\<close>, the cell is kept although it is below the threshold. And the
  band written is \<^verbatim>\<open>Float32\<close>: the \<^verbatim>\<open>Int32\<close> cell \<open>16777217\<close>, kept at threshold \<open>0\<close>, is
  stored as \<open>16777216\<close>, not as the source value.
\<close>

theorem create_threshold_raster_cell_counterexample:
  "map_option (\<lambda>b. band_data b ! 0 ! 0)
     (raster_band
        (outcome_world (create_threshold_raster demo_env demo_world ''probe/near.asc''
           ''out/near.tif'' (PyFloat (Fin 1.00000001))))
        ''out/near.tif'') = Some (Fin 1)
   \<and> \<not> (1.00000001 \<le> (1::real))
   \<and> map_option (\<lambda>b. band_data b ! 0 ! 0)
     (raster_band
        (outcome_world (create_threshold_raster demo_env demo_world ''probe/big.asc''
           ''out/big.tif'' (PyInt 0)))
        ''out/big.tif'') = Some (Fin 16777216)
   \<and> (0::real) \<le> 16777217 \<and> (16777216::real) \<noteq> 16777217"
proof -
  have near: "fval_ge (Fin 1) (threshold_as GDT_Float32 (PyFloat (Fin 1.00000001)))"
    unfolding threshold_as_def gdal_type.case num_value.simps to_float32_near_one by simp
  have big: "fval_ge (Fin 16777217) (threshold_as GDT_Int32 (PyInt 0))"
    by (simp add: threshold_as_def)
  have 1: "map_option (\<lambda>b. band_data b ! 0 ! 0)
     (raster_band
        (outcome_world (create_threshold_raster demo_env demo_world ''probe/near.asc''
           ''out/near.tif'' (PyFloat (Fin 1.00000001))))
        ''out/near.tif'') = Some (Fin 1)"
    unfolding create_threshold_raster_returns [OF demo_open_near demo_near_band demo_can_create]
      outcome_world_simps raster_band_write_file threshold_dataset_band
    using near by (simp add: np_where_ge_def to_float32_one)
  have 2: "map_option (\<lambda>b. band_data b ! 0 ! 0)
     (raster_band
        (outcome_world (create_threshold_raster demo_env demo_world ''probe/big.asc''
           ''out/big.tif'' (PyInt 0)))
        ''out/big.tif'') = Some (Fin 16777216)"
    unfolding create_threshold_raster_returns [OF demo_open_big demo_big_band demo_can_create]
      outcome_world_simps raster_band_write_file threshold_dataset_band
    using big by (simp add: np_where_ge_def to_float32_big_odd)
  from 1 2 show ?thesis by simp
qed

text \<open>
  Claim C2. For every source raster and every threshold, the raster written by the
  masking operation has the source's dimensions (raster size and array shape), its
  geotransform and its projection.
\<close>

theorem create_threshold_raster_georeferencing:
  assumes "gdal_Open w inp = Some src" and "GetRasterBand1 src = Some b"
    and "can_create env out"
  shows "\<exists>w' ods ob. create_threshold_raster env w inp out t = Inr (out, w')
           \<and> gdal_Open w' out = Some ods
           \<and> RasterXSize ods = RasterXSize src \<and> RasterYSize ods = RasterYSize src
           \<and> GeoTransform ods = GeoTransform src \<and> Projection ods = Projection src
           \<and> bands ods = [ob] \<and> map length (band_data ob) = map length (band_data b)"
  using assms
  by (simp add: create_threshold_raster_returns gdal_Open_write_file threshold_dataset_def
      np_where_ge_def comp_def)

theorem create_threshold_raster_georeferencing_witness:
  "\<exists>w' ods ob. create_threshold_raster demo_env demo_world ''in/a.asc'' ''out/a.tif''
               (PyFloat (Fin 0.5)) = Inr (''out/a.tif'', w')
     \<and> gdal_Open w' ''out/a.tif'' = Some ods
     \<and> RasterXSize ods = 4 \<and> RasterYSize ods = 1
     \<and> GeoTransform ods = [10, 2, 0, 50, 0, -2] \<and> Projection ods = ''EPSG:32615''
     \<and> bands ods = [ob] \<and> map length (band_data ob) = [4]"
  using create_threshold_raster_georeferencing [OF demo_open demo_band1 demo_can_create,
      of "''out/a.tif''" "PyFloat (Fin 0.5)"]
  by (simp add: demo_raster_def demo_band_def eval_nat_numeral)

text \<open>
  Claim C3. For every source raster and thresholds \<open>t1 < t2\<close>, the cells that are not
  no-data in the masked output for \<open>t2\<close> are among the cells that are not no-data in
  the masked output for \<open>t1\<close>.
\<close>

theorem create_threshold_raster_monotone:
  assumes r1: "create_threshold_raster env w inp out1 t1 = Inr (p1, w1)"
    and r2: "create_threshold_raster env w inp out2 t2 = Inr (p2, w2)"
    and lt: "fval_less (num_value t1) (num_value t2)"
  shows "\<exists>b1 b2. raster_band w1 out1 = Some b1 \<and> raster_band w2 out2 = Some b2
           \<and> set (data_cells b2) \<subseteq> set (data_cells b1)"
proof -
  from create_threshold_raster_InrD[OF r1] obtain src b where
    src: "gdal_Open w inp = Some src" "GetRasterBand1 src = Some b"
    and c1: "can_create env out1"
    by blast
  from create_threshold_raster_InrD[OF r2] have c2: "can_create env out2" by blast
  let ?b1 = "\<lparr>band_data = map (map to_float32) (np_where_ge (DataType b) (band_data b) t1),
              NoDataValue = Some NaN, DataType = GDT_Float32\<rparr>"
  let ?b2 = "\<lparr>band_data = map (map to_float32) (np_where_ge (DataType b) (band_data b) t2),
              NoDataValue = Some NaN, DataType = GDT_Float32\<rparr>"
  have b1: "raster_band w1 out1 = Some ?b1"
    using r1 by (auto simp: create_threshold_raster_returns[OF src c1]
        raster_band_write_file threshold_dataset_band)
  have b2: "raster_band w2 out2 = Some ?b2"
    using r2 by (auto simp: create_threshold_raster_returns[OF src c2]
        raster_band_write_file threshold_dataset_band)
  have keep: "fval_ge v (threshold_as (DataType b) t1)"
    if "fval_ge v (threshold_as (DataType b) t2)" for v
    using that threshold_as_mono[OF lt, of "DataType b"] by (rule fval_ge_trans)
  have "set (data_cells ?b2) \<subseteq> set (data_cells ?b1)"
    using keep by (auto simp: set_data_cells np_where_ge_nth split: if_splits)
  with b1 b2 show ?thesis by blast
qed

theorem create_threshold_raster_monotone_witness:
  "\<exists>w1 w2 b1 b2.
     create_threshold_raster demo_env demo_world ''in/a.asc'' ''out/lo.tif''
       (PyFloat (Fin 0.5)) = Inr (''out/lo.tif'', w1)
     \<and> create_threshold_raster demo_env demo_world ''in/a.asc'' ''out/hi.tif''
         (PyFloat (Fin 0.9)) = Inr (''out/hi.tif'', w2)
     \<and> fval_less (num_value (PyFloat (Fin 0.5))) (num_value (PyFloat (Fin 0.9)))
     \<and> raster_band w1 ''out/lo.tif'' = Some b1 \<and> raster_band w2 ''out/hi.tif'' = Some b2
     \<and> set (data_cells b2) \<subseteq> set (data_cells b1)"
proof -
  obtain w1 where r1: "create_threshold_raster demo_env demo_world ''in/a.asc''
      ''out/lo.tif'' (PyFloat (Fin 0.5)) = Inr (''out/lo.tif'', w1)"
    by (simp add: create_threshold_raster_returns [OF demo_open demo_band1 demo_can_create])
  obtain w2 where r2: "create_threshold_raster demo_env demo_world ''in/a.asc''
      ''out/hi.tif'' (PyFloat (Fin 0.9)) = Inr (''out/hi.tif'', w2)"
    by (simp add: create_threshold_raster_returns [OF demo_open demo_band1 demo_can_create])
  have lt: "fval_less (num_value (PyFloat (Fin 0.5))) (num_value (PyFloat (Fin 0.9)))"
    by simp
  from create_threshold_raster_monotone [OF r1 r2 lt] r1 r2 lt
  show ?thesis by blast
qed

text \<open>
  Claim C4. For a fixed source raster and threshold, running the masking operation a
  second time returns again and leaves the file store exactly as the first run left
  it: the output written twice is value-identical.
\<close>

theorem create_threshold_raster_rerun:
  assumes r1: "create_threshold_raster env w inp out t = Inr (p, w1)"
  shows "\<exists>w2. create_threshold_raster env w1 inp out t = Inr (p, w2)
           \<and> files w2 = files w1"
proof -
  from create_threshold_raster_InrD[OF r1] obtain src b where
    src: "gdal_Open w inp = Some src" "GetRasterBand1 src = Some b"
    and c: "can_create env out"
    by blast
  let ?ods = "threshold_dataset src b t"
  have w1: "w1 = write_file w out (Raster ?ods)" and p: "p = out"
    using r1 by (auto simp: create_threshold_raster_returns[OF src c])
  have stored: "files w1 out = Some (Raster ?ods)"
    by (simp add: w1 write_file_def)
  show ?thesis
  proof (cases "inp = out")
    case True
    have o: "gdal_Open w1 inp = Some ?ods"
      by (simp add: True w1 gdal_Open_write_file)
    obtain ob where g: "GetRasterBand1 ?ods = Some ob"
      by (simp add: threshold_dataset_band)
    show ?thesis
      using stored
      by (simp add: create_threshold_raster_returns[OF o g c] p
          threshold_dataset_idem[OF g] write_file_def fun_upd_idem)
  next
    case False
    then have o: "gdal_Open w1 inp = Some src"
      using src(1) by (simp add: w1 gdal_Open_def write_file_def)
    show ?thesis
      using stored
      by (simp add: create_threshold_raster_returns[OF o src(2) c] p
          write_file_def fun_upd_idem)
  qed
qed

theorem create_threshold_raster_rerun_witness:
  "\<exists>w1 w2. create_threshold_raster demo_env demo_world ''in/a.asc'' ''out/a.tif''
              (PyFloat (Fin 0.5)) = Inr (''out/a.tif'', w1)
     \<and> create_threshold_raster demo_env w1 ''in/a.asc'' ''out/a.tif''
              (PyFloat (Fin 0.5)) = Inr (''out/a.tif'', w2)
     \<and> files w2 = files w1"
proof -
  obtain w1 where r1: "create_threshold_raster demo_env demo_world ''in/a.asc''
      ''out/a.tif'' (PyFloat (Fin 0.5)) = Inr (''out/a.tif'', w1)"
    by (simp add: create_threshold_raster_returns [OF demo_open demo_band1 demo_can_create])
  from create_threshold_raster_rerun [OF r1] r1
  show ?thesis by blast
qed

section \<open>Derived paths\<close>

lemma basename_no_slash: "CHR ''/'' \<notin> set (basename p)"
proof -
  have "set (takeWhile (\<lambda>c. c \<noteq> CHR ''/'') (rev p)) \<subseteq> {c. c \<noteq> CHR ''/''}"
    by (auto dest: set_takeWhileD)
  then show ?thesis by (auto simp: basename_def)
qed

lemma basename_append_slash:
  assumes "CHR ''/'' \<notin> set r"
  shows "basename (a @ CHR ''/'' # r) = r"
proof -
  have "takeWhile (\<lambda>c. c \<noteq> CHR ''/'') (rev r) = rev r"
    using assms by (auto simp: takeWhile_eq_all_conv)
  then have "takeWhile (\<lambda>c. c \<noteq> CHR ''/'') (rev r @ CHR ''/'' # rev a) = rev r"
    by (simp add: takeWhile_tail)
  then show ?thesis by (simp add: basename_def)
qed

lemma basename_no_slash_id:
  assumes "CHR ''/'' \<notin> set r"
  shows "basename r = r"
proof -
  have "takeWhile (\<lambda>c. c \<noteq> CHR ''/'') (rev r) = rev r"
    using assms by (auto simp: takeWhile_eq_all_conv)
  then show ?thesis unfolding basename_def by (simp only: rev_rev_ident)
qed

lemma file_stem_no_dot: "CHR ''.'' \<notin> set (file_stem p)"
  by (auto simp: file_stem_def dest: set_takeWhileD)

lemma file_stem_no_slash: "CHR ''/'' \<notin> set (file_stem p)"
  using basename_no_slash[of p] by (auto simp: file_stem_def dest: set_takeWhileD)

lemma file_stem_output:
  assumes "CHR ''/'' \<notin> set f" and "CHR ''/'' \<notin> set suf"
  shows "file_stem (od @ ''/'' @ file_stem inp @ ''_threshold_'' @ f @ suf) =
           file_stem inp @ ''_threshold_'' @ takeWhile (\<lambda>c. c \<noteq> CHR ''.'') (f @ suf)"
proof -
  let ?r = "file_stem inp @ ''_threshold_'' @ f @ suf"
  have "CHR ''/'' \<notin> set ?r"
    using assms file_stem_no_slash[of inp] by simp
  then have "basename (od @ CHR ''/'' # ?r) = ?r"
    by (rule basename_append_slash)
  moreover have "takeWhile (\<lambda>c. c \<noteq> CHR ''.'') ?r =
      file_stem inp @ ''_threshold_'' @ takeWhile (\<lambda>c. c \<noteq> CHR ''.'') (f @ suf)"
  proof -
    have "\<And>x. x \<in> set (file_stem inp) \<Longrightarrow> x \<noteq> CHR ''.''"
      using file_stem_no_dot[of inp] by auto
    then show ?thesis by (simp add: takeWhile_append2)
  qed
  ultimately show ?thesis by (simp add: file_stem_def)
qed

text \<open>The five paths of one threshold, spelled out.\<close>

lemma shapefile_part_shp: "shapefile_part (b @ ''.shp'') ext = b @ ext"
  by (simp add: shapefile_part_def endswith_def)

lemma shapefile_part_vector_path:
  "shapefile_part (threshold_vector_path env inp od t) ext =
     od @ ''/'' @ file_stem inp @ ''_threshold_'' @ format_threshold env t @ ''_polygons'' @ ext"
proof -
  have "threshold_vector_path env inp od t =
      (od @ ''/'' @ file_stem inp @ ''_threshold_'' @ format_threshold env t @ ''_polygons'')
        @ ''.shp''"
    by (simp add: threshold_vector_path_def)
  then have "shapefile_part (threshold_vector_path env inp od t) ext =
      (od @ ''/'' @ file_stem inp @ ''_threshold_'' @ format_threshold env t @ ''_polygons'')
        @ ext"
    by (simp only: shapefile_part_shp)
  then show ?thesis by simp
qed

lemma output_paths_Nil [simp]: "output_paths env inp od [] = []"
  by (simp add: output_paths_def)

lemma output_paths_Cons [simp]:
  "output_paths env inp od (t # ts) =
     threshold_raster_path env inp od t # threshold_vector_path env inp od t
       # output_paths env inp od ts"
  by (simp add: output_paths_def)

lemma touched_paths_Nil [simp]: "touched_paths env inp od [] = []"
  by (simp add: touched_paths_def)

lemma touched_paths_Cons [simp]:
  "touched_paths env inp od (t # ts) =
     threshold_raster_path env inp od t
       # (threshold_raster_path env inp od t @ ''.aux.xml'')
       # shapefile_part (threshold_vector_path env inp od t) ''.shx''
       # shapefile_part (threshold_vector_path env inp od t) ''.dbf''
       # threshold_vector_path env inp od t
       # touched_paths env inp od ts"
  by (simp add: touched_paths_def)

lemma output_paths_touched: "set (output_paths env inp od ts) \<subseteq> set (touched_paths env inp od ts)"
  by (induction ts) auto

lemma input_not_touched:
  assumes "CHR ''/'' \<notin> set (format_threshold env t)"
  shows "inp \<noteq> threshold_raster_path env inp od t"
    and "inp \<noteq> threshold_raster_path env inp od t @ ''.aux.xml''"
    and "inp \<noteq> shapefile_part (threshold_vector_path env inp od t) ''.shx''"
    and "inp \<noteq> shapefile_part (threshold_vector_path env inp od t) ''.dbf''"
    and "inp \<noteq> threshold_vector_path env inp od t"
proof -
  have ne: "file_stem (od @ ''/'' @ file_stem inp @ ''_threshold_'' @ format_threshold env t @ suf)
          \<noteq> file_stem inp" if "CHR ''/'' \<notin> set suf" for suf
  proof -
    have "length (file_stem (od @ ''/'' @ file_stem inp @ ''_threshold_''
        @ format_threshold env t @ suf)) > length (file_stem inp)"
      unfolding file_stem_output[OF assms that] by simp
    then show ?thesis by auto
  qed
  show "inp \<noteq> threshold_raster_path env inp od t"
    using ne[of "''.tif''"] by (auto simp: threshold_raster_path_def)
  show "inp \<noteq> threshold_raster_path env inp od t @ ''.aux.xml''"
    using ne[of "''.tif.aux.xml''"] by (auto simp: threshold_raster_path_def)
  show "inp \<noteq> shapefile_part (threshold_vector_path env inp od t) ''.shx''"
    using ne[of "''_polygons.shx''"] by (auto simp: shapefile_part_vector_path)
  show "inp \<noteq> shapefile_part (threshold_vector_path env inp od t) ''.dbf''"
    using ne[of "''_polygons.dbf''"] by (auto simp: shapefile_part_vector_path)
  show "inp \<noteq> threshold_vector_path env inp od t"
    using ne[of "''_polygons.shp''"] by (auto simp: threshold_vector_path_def)
qed

lemma input_not_in_touched_paths:
  assumes "\<forall>t\<in>set ts. CHR ''/'' \<notin> set (format_threshold env t)"
  shows "inp \<notin> set (touched_paths env inp od ts)"
  using assms
proof (induction ts)
  case Nil
  show ?case by simp
next
  case (Cons t ts)
  then have "CHR ''/'' \<notin> set (format_threshold env t)" by simp
  from input_not_touched[OF this, of inp od] Cons show ?case by simp
qed

text \<open>Paths by their extension.\<close>

lemma endswithD: "endswith s suf \<Longrightarrow> \<exists>pre. s = pre @ suf"
  by (metis append_take_drop_id endswith_def)

lemma endswith_append [simp]: "endswith (pre @ suf) suf"
  by (simp add: endswith_def)

lemma endswith_same_length:
  assumes "endswith s a" and "endswith s b" and "length a = length b"
  shows "a = b"
  using assms by (simp add: endswith_def)

lemma endswith_raster_path: "endswith (threshold_raster_path env inp od t) ''.tif''"
proof -
  have "threshold_raster_path env inp od t =
      (od @ ''/'' @ file_stem inp @ ''_threshold_'' @ format_threshold env t) @ ''.tif''"
    by (simp add: threshold_raster_path_def)
  then show ?thesis by (simp only: endswith_append)
qed

lemma endswith_vector_path: "endswith (threshold_vector_path env inp od t) ''.shp''"
proof -
  have "threshold_vector_path env inp od t =
      (od @ ''/'' @ file_stem inp @ ''_threshold_'' @ format_threshold env t @ ''_polygons'')
        @ ''.shp''"
    by (simp add: threshold_vector_path_def)
  then show ?thesis by (simp only: endswith_append)
qed

lemma endswith_aux_path: "endswith (p @ ''.aux.xml'') ''.xml''"
proof -
  have "p @ ''.aux.xml'' = (p @ ''.aux'') @ ''.xml''" by simp
  then show ?thesis by (simp only: endswith_append)
qed

lemma endswith_shapefile_part:
  "endswith (shapefile_part (threshold_vector_path env inp od t) ext) ext"
proof -
  have "shapefile_part (threshold_vector_path env inp od t) ext =
      (od @ ''/'' @ file_stem inp @ ''_threshold_'' @ format_threshold env t @ ''_polygons'')
        @ ext"
    by (simp add: shapefile_part_vector_path)
  then show ?thesis by (simp only: endswith_append)
qed

lemma touched_paths_extension:
  assumes "p \<in> set (touched_paths env inp od ts)"
  shows "endswith p ''.tif'' \<or> endswith p ''.xml'' \<or> endswith p ''.shx''
       \<or> endswith p ''.dbf'' \<or> endswith p ''.shp''"
  using assms
  by (induction ts)
    (auto simp: endswith_raster_path endswith_vector_path endswith_aux_path
      endswith_shapefile_part)

lemma raster_path_not_vector_path:
  "threshold_raster_path env inp od t \<noteq> threshold_vector_path env inp' od' t'"
  using endswith_same_length[OF endswith_raster_path[of env inp od t], of "''.shp''"]
    endswith_vector_path[of env inp' od' t']
  by auto

lemma endswith_path_join:
  assumes "endswith f suf"
  shows "endswith (path_join d f) suf"
proof -
  from endswithD[OF assms] obtain pre where f: "f = pre @ suf" by blast
  have "\<exists>x. path_join d f = x @ suf"
  proof -
    have "path_join d f = f \<or> path_join d f = d @ f \<or> path_join d f = d @ ''/'' @ f"
      by (simp add: path_join_def)
    then show ?thesis
    proof (elim disjE)
      assume "path_join d f = f"
      then have "path_join d f = pre @ suf" by (simp add: f)
      then show ?thesis ..
    next
      assume "path_join d f = d @ f"
      then have "path_join d f = (d @ pre) @ suf" by (simp add: f)
      then show ?thesis ..
    next
      assume "path_join d f = d @ ''/'' @ f"
      then have "path_join d f = (d @ ''/'' @ pre) @ suf" by (simp add: f)
      then show ?thesis ..
    qed
  qed
  then obtain x where "path_join d f = x @ suf" ..
  then show ?thesis by (simp only: endswith_append)
qed

lemma asc_extension:
  assumes "endswith p ''.asc''"
  shows "\<not> endswith p ''.tif''" and "\<not> endswith p ''.xml''" and "\<not> endswith p ''.shx''"
    and "\<not> endswith p ''.dbf''" and "\<not> endswith p ''.shp''"
  using endswith_same_length[OF assms, of "''.tif''"]
    endswith_same_length[OF assms, of "''.xml''"]
    endswith_same_length[OF assms, of "''.shx''"]
    endswith_same_length[OF assms, of "''.dbf''"]
    endswith_same_length[OF assms, of "''.shp''"]
  by auto

lemma asc_not_touched:
  assumes "endswith f ''.asc''"
  shows "path_join d f \<notin> set (touched_paths env inp od ts)"
proof
  assume "path_join d f \<in> set (touched_paths env inp od ts)"
  from touched_paths_extension[OF this] asc_extension[OF endswith_path_join[OF assms, of d]]
  show False by blast
qed

lemma asc_not_output:
  assumes "endswith f ''.asc''"
  shows "path_join d f \<notin> set (output_paths env inp od ts)"
  using asc_not_touched[OF assms] output_paths_touched by blast

section \<open>One call of the per-raster orchestration\<close>

lemma write_file_fields [simp]:
  "files (write_file w p f) = (files w)(p \<mapsto> f)"
  "writes (write_file w p f) = writes w @ [p]"
  "project_layers (write_file w p f) = project_layers w"
  by (simp_all add: write_file_def)

lemma write_vector_fields [simp]:
  "files (write_vector w rp vp v) =
     (files w)(rp @ ''.aux.xml'' \<mapsto> Companion, shapefile_part vp ''.shx'' \<mapsto> Companion,
               shapefile_part vp ''.dbf'' \<mapsto> Companion, vp \<mapsto> Vector v)"
  "writes (write_vector w rp vp v) = writes w @ [vp]"
  "project_layers (write_vector w rp vp v) = project_layers w"
  by (simp_all add: write_vector_def put_companion_def Let_def)

lemma addMapLayer_fields [simp]:
  "files (addMapLayer w l) = files w"
  "writes (addMapLayer w l) = writes w"
  "project_layers (addMapLayer w l) = project_layers w @ [l]"
  by (simp_all add: addMapLayer_def)

lemma gdal_Open_cong: "files w' p = files w p \<Longrightarrow> gdal_Open w' p = gdal_Open w p"
  by (simp add: gdal_Open_def)

lemma gdal_Open_addMapLayer [simp]: "gdal_Open (addMapLayer w l) p = gdal_Open w p"
  by (simp add: gdal_Open_def)

lemma raster_to_vector_returns:
  assumes "gdal_Open w inp = Some ds" and "can_create env out" and "polygonize env ds = Some v"
  shows "raster_to_vector env w inp out = Inr ((), write_vector w inp out v)"
  using assms by (simp add: raster_to_vector_def)

lemma raster_to_vector_InrD:
  assumes "raster_to_vector env w inp out = Inr (u, w')"
  shows "\<exists>ds v. gdal_Open w inp = Some ds \<and> can_create env out \<and> polygonize env ds = Some v"
  using assms by (auto simp: raster_to_vector_def split: option.splits if_splits)

lemma isValid_write_vector:
  "isValid env (write_vector w rp (layer_source l) v) l = vector_valid env v"
  by (simp add: isValid_def)

lemma layer_source_threshold_layer [simp]:
  "layer_source (threshold_layer env inp od t) = threshold_vector_path env inp od t"
  by (simp add: threshold_layer_def)

text \<open>
  The state after one iteration that did not raise: the masked raster at the raster
  path, and what the tracing of it left.
\<close>

lemma step_files_other:
  assumes "p \<noteq> rp" and "p \<noteq> rp @ ''.aux.xml''" and "p \<noteq> shapefile_part vp ''.shx''"
    and "p \<noteq> shapefile_part vp ''.dbf''" and "p \<noteq> vp"
  shows "files (write_vector (write_file w rp f) rp vp v) p = files w p"
  using assms by simp

lemma step_dom:
  "dom (files (write_vector (write_file w rp f) rp vp v)) =
     dom (files w) \<union> {rp, rp @ ''.aux.xml'', shapefile_part vp ''.shx'',
                        shapefile_part vp ''.dbf'', vp}"
  by auto

text \<open>One iteration of the loop, when it does not raise.\<close>

lemma process_thresholds_loop_step:
  assumes "gdal_Open w inp = Some src" and "GetRasterBand1 src = Some b"
    and "can_create env (threshold_raster_path env inp od t)"
    and "can_create env (threshold_vector_path env inp od t)"
    and "polygonize env (threshold_dataset src b t) = Some v"
  shows "process_thresholds_loop env inp od (t # rest) vls w =
           (let w2 = write_vector
                       (write_file w (threshold_raster_path env inp od t)
                          (Raster (threshold_dataset src b t)))
                       (threshold_raster_path env inp od t)
                       (threshold_vector_path env inp od t) v
            in if vector_valid env v
               then process_thresholds_loop env inp od rest
                      (vls @ [threshold_layer env inp od t])
                      (addMapLayer w2 (threshold_layer env inp od t))
               else process_thresholds_loop env inp od rest vls w2)"
proof -
  let ?rp = "threshold_raster_path env inp od t"
  let ?vp = "threshold_vector_path env inp od t"
  let ?w1 = "write_file w ?rp (Raster (threshold_dataset src b t))"
  have 1: "create_threshold_raster env w inp ?rp t = Inr (?rp, ?w1)"
    using assms(1-3) by (rule create_threshold_raster_returns)
  have "gdal_Open ?w1 ?rp = Some (threshold_dataset src b t)"
    by (simp add: gdal_Open_write_file)
  then have 2: "raster_to_vector env ?w1 ?rp ?vp = Inr ((), write_vector ?w1 ?rp ?vp v)"
    using assms(4,5) by (rule raster_to_vector_returns)
  have 3: "isValid env (write_vector ?w1 ?rp ?vp v) (threshold_layer env inp od t)
      = vector_valid env v"
    using isValid_write_vector[of env ?w1 ?rp "threshold_layer env inp od t" v] by simp
  show ?thesis
    by (simp add: 1 2 3 Let_def del: write_vector_fields write_file_fields)
qed

lemma process_thresholds_loop_InrD:
  assumes "process_thresholds_loop env inp od (t # rest) vls w = Inr (ls, w')"
  shows "\<exists>src b v. gdal_Open w inp = Some src \<and> GetRasterBand1 src = Some b
           \<and> can_create env (threshold_raster_path env inp od t)
           \<and> can_create env (threshold_vector_path env inp od t)
           \<and> polygonize env (threshold_dataset src b t) = Some v"
proof -
  from assms obtain p w1 where
    1: "create_threshold_raster env w inp (threshold_raster_path env inp od t) t = Inr (p, w1)"
    by (auto simp: Let_def split: sum.splits)
  from create_threshold_raster_InrD[OF 1] obtain src b where
    src: "gdal_Open w inp = Some src" "GetRasterBand1 src = Some b"
    and c: "can_create env (threshold_raster_path env inp od t)" by blast
  have w1: "w1 = write_file w (threshold_raster_path env inp od t) (Raster (threshold_dataset src b t))"
    using 1 by (auto simp: create_threshold_raster_returns[OF src c])
  from assms 1 obtain u w2 where
    2: "raster_to_vector env w1 (threshold_raster_path env inp od t)
          (threshold_vector_path env inp od t) = Inr (u, w2)"
    by (auto simp: Let_def split: sum.splits)
  from raster_to_vector_InrD[OF 2] obtain ds v where
    "gdal_Open w1 (threshold_raster_path env inp od t) = Some ds"
    "can_create env (threshold_vector_path env inp od t)" "polygonize env ds = Some v"
    by blast
  moreover then have "ds = threshold_dataset src b t"
    by (simp add: w1 gdal_Open_write_file)
  ultimately show ?thesis using src c by blast
qed

lemma layer_loads_cong:
  "gdal_Open w' inp = gdal_Open w inp \<Longrightarrow> layer_loads env w' inp = layer_loads env w inp"
  by (rule ext) (simp add: layer_loads_def)

lemma process_thresholds_loop_result:
  assumes "process_thresholds_loop env inp od ts vls w = Inr (ls, w')"
    and "inp \<notin> set (touched_paths env inp od ts)"
  shows "ls = vls @ map (threshold_layer env inp od) (filter (layer_loads env w inp) ts)
     \<and> project_layers w' = project_layers w
          @ map (threshold_layer env inp od) (filter (layer_loads env w inp) ts)
     \<and> writes w' = writes w @ output_paths env inp od ts
     \<and> dom (files w') = dom (files w) \<union> set (touched_paths env inp od ts)
     \<and> (\<forall>p. p \<notin> set (touched_paths env inp od ts) \<longrightarrow> files w' p = files w p)"
  using assms
proof (induction ts arbitrary: vls w)
  case Nil
  then show ?case by simp
next
  case (Cons t ts)
  let ?rp = "threshold_raster_path env inp od t"
  let ?vp = "threshold_vector_path env inp od t"
  let ?l = "threshold_layer env inp od t"
  let ?five = "{?rp, ?rp @ ''.aux.xml'', shapefile_part ?vp ''.shx'',
      shapefile_part ?vp ''.dbf'', ?vp}"
  from Cons.prems(2) have ne: "inp \<notin> ?five"
    and rest: "inp \<notin> set (touched_paths env inp od ts)"
    by auto
  from process_thresholds_loop_InrD[OF Cons.prems(1)] obtain src b v where
    src: "gdal_Open w inp = Some src" "GetRasterBand1 src = Some b"
    and c: "can_create env ?rp" "can_create env ?vp"
    and v: "polygonize env (threshold_dataset src b t) = Some v"
    by blast
  let ?w2 = "write_vector (write_file w ?rp (Raster (threshold_dataset src b t))) ?rp ?vp v"
  have loads: "layer_loads env w inp t = vector_valid env v"
    by (simp add: layer_loads_def src v)
  have files2: "\<And>p. p \<notin> ?five \<Longrightarrow> files ?w2 p = files w p"
    by simp
  have open2: "gdal_Open ?w2 inp = gdal_Open w inp"
    using files2[OF ne] by (rule gdal_Open_cong)
  have dom2: "dom (files ?w2) = dom (files w) \<union> ?five"
    by (simp only: step_dom)
  have writes2: "writes ?w2 = writes w @ [?rp, ?vp]"
    by simp
  have layers2: "project_layers ?w2 = project_layers w"
    by simp
  have touched: "set (touched_paths env inp od (t # ts)) = ?five \<union> set (touched_paths env inp od ts)"
    by auto
  show ?case
  proof (cases "vector_valid env v")
    case True
    let ?w3 = "addMapLayer ?w2 ?l"
    have run: "process_thresholds_loop env inp od ts (vls @ [?l]) ?w3 = Inr (ls, w')"
      using Cons.prems(1) True
      unfolding process_thresholds_loop_step[OF src c v] Let_def by simp
    have cong: "layer_loads env ?w3 inp = layer_loads env w inp"
      by (rule layer_loads_cong) (simp only: gdal_Open_addMapLayer open2)
    have w3: "writes ?w3 = writes w @ [?rp, ?vp]"
      "project_layers ?w3 = project_layers w @ [?l]"
      "dom (files ?w3) = dom (files w) \<union> ?five"
      "\<And>p. p \<notin> ?five \<Longrightarrow> files ?w3 p = files w p"
      using dom2 by simp_all
    note ih = Cons.IH[OF run rest]
    have 1: "ls = vls @ map (threshold_layer env inp od) (filter (layer_loads env w inp) (t # ts))"
      using ih True loads unfolding cong by simp
    have 2: "project_layers w' = project_layers w
          @ map (threshold_layer env inp od) (filter (layer_loads env w inp) (t # ts))"
      using ih True loads unfolding cong w3(2) by simp
    have 3: "writes w' = writes w @ output_paths env inp od (t # ts)"
      using ih unfolding w3(1) by simp
    have 4: "dom (files w') = dom (files w) \<union> set (touched_paths env inp od (t # ts))"
      using ih unfolding w3(3) touched by blast
    have 5: "files w' p = files w p" if "p \<notin> set (touched_paths env inp od (t # ts))" for p
    proof -
      from that have a: "p \<notin> ?five" and b: "p \<notin> set (touched_paths env inp od ts)"
        unfolding touched by blast+
      from ih b have "files w' p = files ?w3 p" by blast
      with w3(4)[OF a] show ?thesis by simp
    qed
    from 1 2 3 4 5 show ?thesis by blast
  next
    case False
    have run: "process_thresholds_loop env inp od ts vls ?w2 = Inr (ls, w')"
      using Cons.prems(1) False
      unfolding process_thresholds_loop_step[OF src c v] Let_def by simp
    have cong: "layer_loads env ?w2 inp = layer_loads env w inp"
      using open2 by (rule layer_loads_cong)
    note ih = Cons.IH[OF run rest]
    have 1: "ls = vls @ map (threshold_layer env inp od) (filter (layer_loads env w inp) (t # ts))"
      using ih False loads unfolding cong by simp
    have 2: "project_layers w' = project_layers w
          @ map (threshold_layer env inp od) (filter (layer_loads env w inp) (t # ts))"
      using ih False loads unfolding cong layers2 by simp
    have 3: "writes w' = writes w @ output_paths env inp od (t # ts)"
      using ih unfolding writes2 by simp
    have 4: "dom (files w') = dom (files w) \<union> set (touched_paths env inp od (t # ts))"
      using ih unfolding dom2 touched by blast
    have 5: "files w' p = files w p" if "p \<notin> set (touched_paths env inp od (t # ts))" for p
    proof -
      from that have a: "p \<notin> ?five" and b: "p \<notin> set (touched_paths env inp od ts)"
        unfolding touched by blast+
      from ih b have "files w' p = files ?w2 p" by blast
      with files2[OF a] show ?thesis by simp
    qed
    from 1 2 3 4 5 show ?thesis by blast
  qed
qed

lemma host_serves_Cons:
  assumes "host_serves env w inp od (t # ts)"
  shows "\<exists>src b v. gdal_Open w inp = Some src \<and> GetRasterBand1 src = Some b
           \<and> can_create env (threshold_raster_path env inp od t)
           \<and> can_create env (threshold_vector_path env inp od t)
           \<and> polygonize env (threshold_dataset src b t) = Some v"
  using assms by (auto simp: host_serves_def split: option.splits)

lemma host_serves_tail:
  assumes "host_serves env w inp od (t # ts)" and "gdal_Open w' inp = gdal_Open w inp"
  shows "host_serves env w' inp od ts"
  using assms by (auto simp: host_serves_def split: option.splits)

lemma host_serves_cong:
  "gdal_Open w' inp = gdal_Open w inp \<Longrightarrow>
   host_serves env w' inp od ts = host_serves env w inp od ts"
  by (simp add: host_serves_def)

lemma process_thresholds_loop_returns:
  assumes "host_serves env w inp od ts"
    and "inp \<notin> set (touched_paths env inp od ts)"
  shows "\<exists>ls w'. process_thresholds_loop env inp od ts vls w = Inr (ls, w')"
  using assms
proof (induction ts arbitrary: vls w)
  case Nil
  then show ?case by simp
next
  case (Cons t ts)
  let ?rp = "threshold_raster_path env inp od t"
  let ?vp = "threshold_vector_path env inp od t"
  let ?l = "threshold_layer env inp od t"
  let ?five = "{?rp, ?rp @ ''.aux.xml'', shapefile_part ?vp ''.shx'',
      shapefile_part ?vp ''.dbf'', ?vp}"
  from Cons.prems(2) have ne: "inp \<notin> ?five"
    and rest: "inp \<notin> set (touched_paths env inp od ts)"
    by auto
  from host_serves_Cons[OF Cons.prems(1)] obtain src b v where
    src: "gdal_Open w inp = Some src" "GetRasterBand1 src = Some b"
    and c: "can_create env ?rp" "can_create env ?vp"
    and v: "polygonize env (threshold_dataset src b t) = Some v"
    by blast
  let ?w2 = "write_vector (write_file w ?rp (Raster (threshold_dataset src b t))) ?rp ?vp v"
  have "files ?w2 inp = files w inp"
    using ne by simp
  then have open2: "gdal_Open ?w2 inp = gdal_Open w inp"
    by (rule gdal_Open_cong)
  have s2: "host_serves env ?w2 inp od ts"
    using Cons.prems(1) open2 by (rule host_serves_tail)
  have s3: "host_serves env (addMapLayer ?w2 ?l) inp od ts"
    using Cons.prems(1) by (rule host_serves_tail) (simp only: gdal_Open_addMapLayer open2)
  have step: "process_thresholds_loop env inp od (t # ts) vls w =
      (if vector_valid env v
       then process_thresholds_loop env inp od ts (vls @ [?l]) (addMapLayer ?w2 ?l)
       else process_thresholds_loop env inp od ts vls ?w2)"
    unfolding process_thresholds_loop_step[OF src c v] Let_def ..
  show ?case
  proof (cases "vector_valid env v")
    case True
    with Cons.IH[OF s3 rest, of "vls @ [?l]"] show ?thesis
      unfolding step by simp
  next
    case False
    with Cons.IH[OF s2 rest, of vls] show ?thesis
      unfolding step by simp
  qed
qed

lemma demo_stem: "file_stem ''in/a.asc'' = ''a''"
  by (simp add: file_stem_def basename_def)

lemma to_float32_nine_tenths: "to_float32 (Fin 0.9) = Fin (15099494 / 16777216)"
  unfolding to_float32.simps r32_nine_tenths Let_def by simp

lemma demo_threshold_as:
  "threshold_as GDT_Float32 (PyFloat (Fin 0.5)) = Fin (1 / 2)"
  "threshold_as GDT_Float32 (PyInt 1) = Fin 1"
  "threshold_as GDT_Float32 (PyFloat (Fin 0.9)) = Fin (15099494 / 16777216)"
  unfolding threshold_as_def gdal_type.case num_value.simps to_float32_nine_tenths
  by (simp_all add: to_float32_half to_float32_one)

lemma demo_polygonize:
  "polygonize demo_env (threshold_dataset demo_raster demo_band t) =
     Some (data_cells
        \<lparr>band_data = map (map to_float32) (np_where_ge GDT_Float32 (band_data demo_band) t),
         NoDataValue = Some NaN, DataType = GDT_Float32\<rparr>)"
  by (simp add: demo_env_def threshold_dataset_band) (simp add: demo_band_def)

lemma demo_data_cells:
  "data_cells
     \<lparr>band_data = map (map to_float32) (np_where_ge GDT_Float32 (band_data demo_band) t),
      NoDataValue = Some NaN, DataType = GDT_Float32\<rparr> =
   map (\<lambda>j. (0, j))
     (filter (\<lambda>j. fval_ge ([Fin 0.0625, Fin 0.25, Fin 0.5, Fin 0.9375] ! j)
                     (threshold_as GDT_Float32 t)) [0, 1, 2, 3])"
proof -
  have "[0..<4] = [0, 1, 2, 3::nat]"
    by (simp add: upt_conv_Cons)
  then show ?thesis
    by (simp add: data_cells_def demo_band_def np_where_ge_def)
qed

lemma demo_traces:
  "polygonize demo_env (threshold_dataset demo_raster demo_band (PyFloat (Fin 0.5)))
     = Some [(0, 2), (0, 3)]"
  "polygonize demo_env (threshold_dataset demo_raster demo_band (PyInt 1)) = Some []"
  "polygonize demo_env (threshold_dataset demo_raster demo_band (PyFloat (Fin 0.9)))
     = Some [(0, 3)]"
  unfolding demo_polygonize demo_data_cells demo_threshold_as by simp_all

lemma demo_serves: "host_serves demo_env demo_world ''in/a.asc'' ''out'' ts"
  by (simp add: host_serves_def demo_open demo_band1 demo_can_create demo_polygonize list_all_iff)

lemma demo_vector_valid: "vector_valid demo_env v = (v \<noteq> [])"
  by (simp add: demo_env_def)

lemma demo_layer_loads:
  "layer_loads demo_env demo_world ''in/a.asc'' (PyFloat (Fin 0.5))"
  "\<not> layer_loads demo_env demo_world ''in/a.asc'' (PyInt 1)"
  "layer_loads demo_env demo_world ''in/a.asc'' (PyFloat (Fin 0.9))"
  unfolding layer_loads_def demo_open demo_band1 option.case demo_traces demo_vector_valid
  by simp_all

lemma demo_loads:
  "filter (layer_loads demo_env demo_world ''in/a.asc'') demo_thresholds =
     [PyFloat (Fin 0.5), PyFloat (Fin 0.9)]"
  unfolding demo_thresholds_def filter.simps using demo_layer_loads by simp

lemma demo_format_no_slash: "\<forall>t\<in>set ts. CHR ''/'' \<notin> set (format_threshold demo_env t)"
  by (simp add: demo_env_def demo_format_def split: pynum.split)

lemma demo_output_paths:
  "output_paths demo_env ''in/a.asc'' ''out'' demo_thresholds =
     [''out/a_threshold_0.5.tif'', ''out/a_threshold_0.5_polygons.shp'',
      ''out/a_threshold_1.tif'', ''out/a_threshold_1_polygons.shp'',
      ''out/a_threshold_0.9.tif'', ''out/a_threshold_0.9_polygons.shp'']"
  by (simp add: demo_thresholds_def threshold_raster_path_def threshold_vector_path_def
      demo_stem demo_env_def demo_format_def)

lemma demo_world_empty: "writes demo_world = []" "project_layers demo_world = []"
  by (simp_all add: demo_world_def)

text \<open>
  Claim C5. For every input raster path and threshold sequence, the per-raster
  orchestration iterates the thresholds in the given order; for each it runs masking and
  then polygonization on paths derived from the input's file stem and the threshold
  (the log of datasets written grows by exactly the derived raster and polygon paths,
  in that order); it registers a layer only if the layer validates and drops the others
  without a fault; and it returns exactly the list of the layers it registered. The
  statement assumes what Python guarantees for the text of a number: it contains no
  slash. The call returns whenever the host serves every step.
\<close>

theorem process_thresholds_result:
  assumes fmt: "\<forall>t\<in>set ts. CHR ''/'' \<notin> set (format_threshold env t)"
  shows "(host_serves env w inp od ts \<longrightarrow>
            (\<exists>ls w'. process_thresholds env w inp od ts = Inr (ls, w')))
     \<and> (\<forall>ls w'. process_thresholds env w inp od ts = Inr (ls, w') \<longrightarrow>
            writes w' = writes w @ output_paths env inp od ts
          \<and> ls = map (threshold_layer env inp od) (filter (layer_loads env w inp) ts)
          \<and> project_layers w' = project_layers w @ ls)"
proof (intro conjI impI allI)
  have no: "inp \<notin> set (touched_paths env inp od ts)"
    using fmt by (rule input_not_in_touched_paths)
  {
    assume "host_serves env w inp od ts"
    then show "\<exists>ls w'. process_thresholds env w inp od ts = Inr (ls, w')"
      unfolding process_thresholds_def using no by (rule process_thresholds_loop_returns)
  }
  fix ls w'
  assume "process_thresholds env w inp od ts = Inr (ls, w')"
  then have run: "process_thresholds_loop env inp od ts [] w = Inr (ls, w')"
    by (simp only: process_thresholds_def)
  note r = process_thresholds_loop_result[OF run no]
  from r show "writes w' = writes w @ output_paths env inp od ts" by blast
  from r show "ls = map (threshold_layer env inp od) (filter (layer_loads env w inp) ts)"
    by simp
  with r show "project_layers w' = project_layers w @ ls" by simp
qed

theorem process_thresholds_result_witness:
  "list_all (\<lambda>t. CHR ''/'' \<notin> set (format_threshold demo_env t)) demo_thresholds
   \<and> host_serves demo_env demo_world ''in/a.asc'' ''out'' demo_thresholds
   \<and> (\<exists>ls w'. process_thresholds demo_env demo_world ''in/a.asc'' ''out'' demo_thresholds
                  = Inr (ls, w')
          \<and> writes w' =
               [''out/a_threshold_0.5.tif'', ''out/a_threshold_0.5_polygons.shp'',
                ''out/a_threshold_1.tif'', ''out/a_threshold_1_polygons.shp'',
                ''out/a_threshold_0.9.tif'', ''out/a_threshold_0.9_polygons.shp'']
          \<and> ls = [threshold_layer demo_env ''in/a.asc'' ''out'' (PyFloat (Fin 0.5)),
                   threshold_layer demo_env ''in/a.asc'' ''out'' (PyFloat (Fin 0.9))]
          \<and> project_layers w' = ls)"
proof -
  note inst = process_thresholds_result [of demo_thresholds demo_env demo_world
      "''in/a.asc''" "''out''", OF demo_format_no_slash]
  from inst demo_serves obtain ls w' where
    run: "process_thresholds demo_env demo_world ''in/a.asc'' ''out'' demo_thresholds
            = Inr (ls, w')"
    by blast
  with inst have "writes w' = writes demo_world
        @ output_paths demo_env ''in/a.asc'' ''out'' demo_thresholds"
    and "ls = map (threshold_layer demo_env ''in/a.asc'' ''out'')
               (filter (layer_loads demo_env demo_world ''in/a.asc'') demo_thresholds)"
    and "project_layers w' = project_layers demo_world @ ls"
    by blast+
  then have "writes w' = output_paths demo_env ''in/a.asc'' ''out'' demo_thresholds"
    and "ls = [threshold_layer demo_env ''in/a.asc'' ''out'' (PyFloat (Fin 0.5)),
               threshold_layer demo_env ''in/a.asc'' ''out'' (PyFloat (Fin 0.9))]"
    and "project_layers w' = ls"
    by (simp_all add: demo_loads) (simp_all add: demo_world_def)
  with run demo_format_no_slash demo_serves show ?thesis
    unfolding demo_output_paths list_all_iff by blast
qed

section \<open>The folder run\<close>

lemma folder_output_paths_Nil [simp]: "folder_output_paths env d od ts [] = []"
  by (simp add: folder_output_paths_def)

lemma folder_output_paths_Cons [simp]:
  "folder_output_paths env d od ts (f # fs) =
     output_paths env (path_join d f) od ts @ folder_output_paths env d od ts fs"
  by (simp add: folder_output_paths_def)

lemma folder_touched_paths_Nil [simp]: "folder_touched_paths env d od ts [] = []"
  by (simp add: folder_touched_paths_def)

lemma folder_touched_paths_Cons [simp]:
  "folder_touched_paths env d od ts (f # fs) =
     touched_paths env (path_join d f) od ts @ folder_touched_paths env d od ts fs"
  by (simp add: folder_touched_paths_def)

lemma folder_layers_Nil [simp]: "folder_layers env w d od ts [] = []"
  by (simp add: folder_layers_def)

lemma folder_layers_Cons [simp]:
  "folder_layers env w d od ts (f # fs) =
     map (threshold_layer env (path_join d f) od)
       (filter (layer_loads env w (path_join d f)) ts)
     @ folder_layers env w d od ts fs"
  by (simp add: folder_layers_def)

lemma folder_layers_cong:
  assumes "\<forall>f\<in>set fs. gdal_Open w' (path_join d f) = gdal_Open w (path_join d f)"
  shows "folder_layers env w' d od ts fs = folder_layers env w d od ts fs"
  using assms
proof (induction fs)
  case Nil
  show ?case by simp
next
  case (Cons f fs)
  from Cons.prems have "layer_loads env w' (path_join d f) = layer_loads env w (path_join d f)"
    by (intro layer_loads_cong) simp
  moreover from Cons have "folder_layers env w' d od ts fs = folder_layers env w d od ts fs"
    by simp
  ultimately show ?case by simp
qed

lemma process_thresholds_frame:
  assumes run: "process_thresholds env w (path_join d f) od ts = Inr (ls, w1)"
    and f: "endswith f ''.asc''" and g: "endswith g ''.asc''"
  shows "gdal_Open w1 (path_join d g) = gdal_Open w (path_join d g)"
proof -
  have no: "path_join d f \<notin> set (touched_paths env (path_join d f) od ts)"
    using f by (rule asc_not_touched)
  have "path_join d g \<notin> set (touched_paths env (path_join d f) od ts)"
    using g by (rule asc_not_touched)
  moreover from run have "process_thresholds_loop env (path_join d f) od ts [] w = Inr (ls, w1)"
    by (simp only: process_thresholds_def)
  note process_thresholds_loop_result[OF this no]
  ultimately have "files w1 (path_join d g) = files w (path_join d g)" by blast
  then show ?thesis by (rule gdal_Open_cong)
qed

lemma process_rasters_loop_Cons_InrD:
  assumes "process_rasters_loop env d od ts (f # fs) w = Inr (u, w')"
  shows "\<exists>ls w1. process_thresholds env w (path_join d f) od ts = Inr (ls, w1)
           \<and> process_rasters_loop env d od ts fs w1 = Inr (u, w')"
proof (cases "process_thresholds env w (path_join d f) od ts")
  case (Inl e)
  with assms show ?thesis by (simp add: Let_def)
next
  case (Inr r)
  obtain ls w1 where "r = (ls, w1)" by (cases r)
  with Inr assms show ?thesis by (simp add: Let_def)
qed

lemma process_rasters_loop_result:
  assumes "process_rasters_loop env d od ts fs w = Inr (u, w')"
    and "\<forall>f\<in>set fs. endswith f ''.asc''"
  shows "writes w' = writes w @ folder_output_paths env d od ts fs
     \<and> project_layers w' = project_layers w @ folder_layers env w d od ts fs
     \<and> dom (files w') = dom (files w) \<union> set (folder_touched_paths env d od ts fs)
     \<and> (\<forall>p. p \<notin> set (folder_touched_paths env d od ts fs) \<longrightarrow> files w' p = files w p)"
  using assms
proof (induction fs arbitrary: w)
  case Nil
  then show ?case by simp
next
  case (Cons f fs)
  let ?inp = "path_join d f"
  from Cons.prems(2) have f: "endswith f ''.asc''" and rest: "\<forall>g\<in>set fs. endswith g ''.asc''"
    by simp_all
  from process_rasters_loop_Cons_InrD[OF Cons.prems(1)] obtain ls w1 where
    one: "process_thresholds env w ?inp od ts = Inr (ls, w1)"
    and more: "process_rasters_loop env d od ts fs w1 = Inr (u, w')"
    by blast
  have no: "?inp \<notin> set (touched_paths env ?inp od ts)"
    using f by (rule asc_not_touched)
  from one have "process_thresholds_loop env ?inp od ts [] w = Inr (ls, w1)"
    by (simp only: process_thresholds_def)
  note r1 = process_thresholds_loop_result[OF this no]
  have w1: "writes w1 = writes w @ output_paths env ?inp od ts"
    and l1: "project_layers w1 = project_layers w
        @ map (threshold_layer env ?inp od) (filter (layer_loads env w ?inp) ts)"
    and d1: "dom (files w1) = dom (files w) \<union> set (touched_paths env ?inp od ts)"
    and f1: "\<And>p. p \<notin> set (touched_paths env ?inp od ts) \<Longrightarrow> files w1 p = files w p"
    using r1 by simp_all
  have cong: "folder_layers env w1 d od ts fs = folder_layers env w d od ts fs"
  proof (rule folder_layers_cong, rule ballI)
    fix g assume "g \<in> set fs"
    with rest have "endswith g ''.asc''" by simp
    with one f show "gdal_Open w1 (path_join d g) = gdal_Open w (path_join d g)"
      by (rule process_thresholds_frame)
  qed
  note r2 = Cons.IH[OF more rest]
  have "writes w' = writes w @ folder_output_paths env d od ts (f # fs)"
    using r2 w1 by simp
  moreover have "project_layers w' = project_layers w @ folder_layers env w d od ts (f # fs)"
    using r2 l1 cong by simp
  moreover have "dom (files w') = dom (files w) \<union> set (folder_touched_paths env d od ts (f # fs))"
    using r2 d1 by auto
  moreover have "\<forall>p. p \<notin> set (folder_touched_paths env d od ts (f # fs)) \<longrightarrow> files w' p = files w p"
    using r2 f1 by simp
  ultimately show ?case by blast
qed

lemma process_rasters_loop_returns:
  assumes "list_all (\<lambda>f. host_serves env w (path_join d f) od ts) fs"
    and "\<forall>f\<in>set fs. endswith f ''.asc''"
  shows "\<exists>w'. process_rasters_loop env d od ts fs w = Inr ((), w')"
  using assms
proof (induction fs arbitrary: w)
  case Nil
  then show ?case by simp
next
  case (Cons f fs)
  let ?inp = "path_join d f"
  from Cons.prems(2) have f: "endswith f ''.asc''" and rest: "\<forall>g\<in>set fs. endswith g ''.asc''"
    by simp_all
  from Cons.prems(1) have s: "host_serves env w ?inp od ts"
    and ss: "list_all (\<lambda>f. host_serves env w (path_join d f) od ts) fs"
    by simp_all
  have no: "?inp \<notin> set (touched_paths env ?inp od ts)"
    using f by (rule asc_not_touched)
  from process_thresholds_loop_returns[OF s no, of "[]"] obtain ls w1 where
    one: "process_thresholds env w ?inp od ts = Inr (ls, w1)"
    by (auto simp: process_thresholds_def)
  have "list_all (\<lambda>f. host_serves env w1 (path_join d f) od ts) fs"
    unfolding list_all_iff
  proof
    fix g assume g: "g \<in> set fs"
    with rest have "endswith g ''.asc''" by simp
    with one f have "gdal_Open w1 (path_join d g) = gdal_Open w (path_join d g)"
      by (rule process_thresholds_frame)
    then have "host_serves env w1 (path_join d g) od ts = host_serves env w (path_join d g) od ts"
      by (rule host_serves_cong)
    with ss g show "host_serves env w1 (path_join d g) od ts"
      by (simp add: list_all_iff)
  qed
  from Cons.IH[OF this rest] obtain w' where
    "process_rasters_loop env d od ts fs w1 = Inr ((), w')" by blast
  with one show ?case by (simp add: Let_def)
qed

lemma length_output_paths: "length (output_paths env inp od ts) = 2 * length ts"
  by (induction ts) simp_all

lemma length_folder_output_paths:
  "length (folder_output_paths env d od ts fs) = 2 * (length fs * length ts)"
  by (induction fs) (simp_all add: length_output_paths)

lemma length_folder_layers_le:
  "length (folder_layers env w d od ts fs) \<le> length fs * length ts"
proof (induction fs)
  case Nil
  show ?case by simp
next
  case (Cons f fs)
  have "length (filter (layer_loads env w (path_join d f)) ts) \<le> length ts"
    by (rule length_filter_le)
  from add_mono[OF this Cons.IH] show ?case by simp
qed

lemma length_folder_layers_all:
  assumes "\<forall>f\<in>set fs. \<forall>t\<in>set ts. layer_loads env w (path_join d f) t"
  shows "length (folder_layers env w d od ts fs) = length fs * length ts"
  using assms
proof (induction fs)
  case Nil
  show ?case by simp
next
  case (Cons f fs)
  then have "filter (layer_loads env w (path_join d f)) ts = ts"
    by (simp add: filter_id_conv)
  with Cons show ?case by simp
qed

lemma demo_open_b: "gdal_Open demo_world ''in/b.c.asc'' = Some demo_raster"
  by (simp add: gdal_Open_def demo_world_def)

lemma demo_serves_b: "host_serves demo_env demo_world ''in/b.c.asc'' ''out'' ts"
  by (simp add: host_serves_def demo_open_b demo_band1 demo_can_create demo_polygonize list_all_iff)

lemma demo_layer_loads_b:
  "layer_loads demo_env demo_world ''in/b.c.asc'' (PyFloat (Fin 0.5))"
  "\<not> layer_loads demo_env demo_world ''in/b.c.asc'' (PyInt 1)"
  "layer_loads demo_env demo_world ''in/b.c.asc'' (PyFloat (Fin 0.9))"
  unfolding layer_loads_def demo_open_b demo_band1 option.case demo_traces demo_vector_valid
  by simp_all

lemma demo_listdir: "listdir demo_env ''in'' = Some [''a.asc'', ''notes.txt'', ''b.c.asc'']"
  by (simp add: demo_env_def)

lemma demo_raster_files:
  "filter (\<lambda>f. endswith f ''.asc'') [''a.asc'', ''notes.txt'', ''b.c.asc''] = [''a.asc'', ''b.c.asc'']"
  by (simp add: endswith_def)

lemma demo_joins: "path_join ''in'' ''a.asc'' = ''in/a.asc''" "path_join ''in'' ''b.c.asc'' = ''in/b.c.asc''"
  by (simp_all add: path_join_def)

lemma demo_stem_b: "file_stem ''in/b.c.asc'' = ''b''"
  by (simp add: file_stem_def basename_def)

lemma demo_output_paths_b:
  "output_paths demo_env ''in/b.c.asc'' ''out'' demo_thresholds =
     [''out/b_threshold_0.5.tif'', ''out/b_threshold_0.5_polygons.shp'',
      ''out/b_threshold_1.tif'', ''out/b_threshold_1_polygons.shp'',
      ''out/b_threshold_0.9.tif'', ''out/b_threshold_0.9_polygons.shp'']"
  by (simp add: demo_thresholds_def threshold_raster_path_def threshold_vector_path_def
      demo_stem_b demo_env_def demo_format_def)

lemma demo_loads_b:
  "filter (layer_loads demo_env demo_world ''in/b.c.asc'') demo_thresholds =
     [PyFloat (Fin 0.5), PyFloat (Fin 0.9)]"
  unfolding demo_thresholds_def filter.simps using demo_layer_loads_b by simp

text \<open>
  Claim C6. For an input directory holding \<open>N\<close> files whose names end in \<^verbatim>\<open>.asc\<close> and a
  threshold list of length \<open>M\<close>, the folder-level orchestration runs the per-raster
  processing once for each of the \<open>N\<close> files, in listing order: the log of datasets written
  grows by the derived paths of each file in turn, \<open>N \<times> M\<close> raster paths and \<open>N \<times> M\<close> polygon
  paths, each derived from the file's stem and the threshold. It registers at most
  \<open>N \<times> M\<close> layers, and exactly \<open>N \<times> M\<close> when every layer validates. The run returns
  whenever the host serves every file.
\<close>

theorem process_rasters_in_folder_result:
  assumes ld: "listdir env d = Some names"
    and rf: "raster_files = filter (\<lambda>f. endswith f ''.asc'') names"
  shows "(list_all (\<lambda>f. host_serves env w (path_join d f) od ts) raster_files \<longrightarrow>
            (\<exists>w'. process_rasters_in_folder env w d od ts = Inr ((), w')))
     \<and> (\<forall>u w'. process_rasters_in_folder env w d od ts = Inr (u, w') \<longrightarrow>
            writes w' = writes w @ folder_output_paths env d od ts raster_files
          \<and> length (folder_output_paths env d od ts raster_files)
              = 2 * (length raster_files * length ts)
          \<and> project_layers w' = project_layers w @ folder_layers env w d od ts raster_files
          \<and> length (folder_layers env w d od ts raster_files)
              \<le> length raster_files * length ts
          \<and> ((\<forall>f\<in>set raster_files. \<forall>t\<in>set ts. layer_loads env w (path_join d f) t) \<longrightarrow>
               length (folder_layers env w d od ts raster_files)
                 = length raster_files * length ts))"
proof -
  have asc: "\<forall>f\<in>set raster_files. endswith f ''.asc''"
    by (simp add: rf)
  have unfold: "process_rasters_in_folder env w d od ts =
      process_rasters_loop env d od ts raster_files w"
    by (simp add: process_rasters_in_folder_def ld rf)
  show ?thesis
  proof (intro conjI impI allI)
    assume "list_all (\<lambda>f. host_serves env w (path_join d f) od ts) raster_files"
    then show "\<exists>w'. process_rasters_in_folder env w d od ts = Inr ((), w')"
      unfolding unfold using asc by (rule process_rasters_loop_returns)
  next
    fix u w'
    assume "process_rasters_in_folder env w d od ts = Inr (u, w')"
    then have "process_rasters_loop env d od ts raster_files w = Inr (u, w')"
      by (simp only: unfold)
    note r = process_rasters_loop_result[OF this asc]
    from r show "writes w' = writes w @ folder_output_paths env d od ts raster_files"
      by blast
    from r show "project_layers w' = project_layers w
        @ folder_layers env w d od ts raster_files"
      by blast
  next
    show "length (folder_output_paths env d od ts raster_files)
        = 2 * (length raster_files * length ts)"
      by (rule length_folder_output_paths)
  next
    show "length (folder_layers env w d od ts raster_files) \<le> length raster_files * length ts"
      by (rule length_folder_layers_le)
  next
    assume "\<forall>f\<in>set raster_files. \<forall>t\<in>set ts. layer_loads env w (path_join d f) t"
    then show "length (folder_layers env w d od ts raster_files)
        = length raster_files * length ts"
      by (rule length_folder_layers_all)
  qed
qed

theorem process_rasters_in_folder_result_witness:
  "listdir demo_env ''in'' = Some [''a.asc'', ''notes.txt'', ''b.c.asc'']
   \<and> list_all (\<lambda>f. host_serves demo_env demo_world (path_join ''in'' f) ''out'' demo_thresholds)
        [''a.asc'', ''b.c.asc'']
   \<and> (\<exists>w'. process_rasters_in_folder demo_env demo_world ''in'' ''out'' demo_thresholds
               = Inr ((), w')
          \<and> writes w' =
               [''out/a_threshold_0.5.tif'', ''out/a_threshold_0.5_polygons.shp'',
                ''out/a_threshold_1.tif'', ''out/a_threshold_1_polygons.shp'',
                ''out/a_threshold_0.9.tif'', ''out/a_threshold_0.9_polygons.shp'',
                ''out/b_threshold_0.5.tif'', ''out/b_threshold_0.5_polygons.shp'',
                ''out/b_threshold_1.tif'', ''out/b_threshold_1_polygons.shp'',
                ''out/b_threshold_0.9.tif'', ''out/b_threshold_0.9_polygons.shp'']
          \<and> length (project_layers w') = 4
          \<and> length (project_layers w') \<le> 2 * 3)"
proof -
  note inst = process_rasters_in_folder_result [of demo_env "''in''"
      "[''a.asc'', ''notes.txt'', ''b.c.asc'']" "[''a.asc'', ''b.c.asc'']"
      demo_world "''out''" demo_thresholds, OF demo_listdir demo_raster_files [symmetric]]
  have serves: "list_all (\<lambda>f. host_serves demo_env demo_world (path_join ''in'' f) ''out''
      demo_thresholds) [''a.asc'', ''b.c.asc'']"
    by (simp add: demo_joins demo_serves demo_serves_b)
  with inst obtain w' where
    run: "process_rasters_in_folder demo_env demo_world ''in'' ''out'' demo_thresholds
            = Inr ((), w')"
    by blast
  with inst have "writes w' = writes demo_world
        @ folder_output_paths demo_env ''in'' ''out'' demo_thresholds [''a.asc'', ''b.c.asc'']"
    and "project_layers w' = project_layers demo_world
        @ folder_layers demo_env demo_world ''in'' ''out'' demo_thresholds [''a.asc'', ''b.c.asc'']"
    by blast+
  then have "writes w' = output_paths demo_env ''in/a.asc'' ''out'' demo_thresholds
        @ output_paths demo_env ''in/b.c.asc'' ''out'' demo_thresholds"
    and "length (project_layers w') = 4"
    by (simp_all add: demo_joins demo_loads demo_loads_b demo_world_empty)
  with run demo_listdir serves show ?thesis
    unfolding demo_output_paths demo_output_paths_b by simp
qed

text \<open>
  Claim C7. On an existing input directory that is empty, or that holds no name ending
  in \<^verbatim>\<open>.asc\<close>, the folder-level orchestration returns without a fault and leaves the
  state as it was: no file written, no layer registered.
\<close>

theorem process_rasters_in_folder_no_rasters:
  assumes "listdir env d = Some names"
    and "filter (\<lambda>f. endswith f ''.asc'') names = []"
  shows "process_rasters_in_folder env w d od ts = Inr ((), w)"
  using assms by (simp add: process_rasters_in_folder_def)

theorem process_rasters_in_folder_no_rasters_witness:
  "listdir demo_env ''empty'' = Some []
   \<and> process_rasters_in_folder demo_env demo_world ''empty'' ''out'' demo_thresholds
       = Inr ((), demo_world)
   \<and> listdir demo_env ''docs'' = Some [''notes.txt'', ''a.asc.bak'']
   \<and> filter (\<lambda>f. endswith f ''.asc'') [''notes.txt'', ''a.asc.bak''] = []
   \<and> process_rasters_in_folder demo_env demo_world ''docs'' ''out'' demo_thresholds
       = Inr ((), demo_world)"
proof -
  have e: "listdir demo_env ''empty'' = Some []"
    and d: "listdir demo_env ''docs'' = Some [''notes.txt'', ''a.asc.bak'']"
    by (simp_all add: demo_env_def)
  have ne: "filter (\<lambda>f. endswith f ''.asc'') [] = []"
    and nd: "filter (\<lambda>f. endswith f ''.asc'') [''notes.txt'', ''a.asc.bak''] = []"
    by (simp_all add: endswith_def)
  from process_rasters_in_folder_no_rasters [OF e ne, of demo_world "''out''" demo_thresholds]
    process_rasters_in_folder_no_rasters [OF d nd, of demo_world "''out''" demo_thresholds]
    e d nd
  show ?thesis by simp
qed
section \<open>File stems and name collisions\<close>

lemma basename_path_join:
  assumes "CHR ''/'' \<notin> set b"
  shows "basename (path_join a b) = b"
proof -
  have hd: "\<not> (b \<noteq> [] \<and> hd b = CHR ''/'')"
    using assms by (cases b) auto
  show ?thesis
  proof (cases "a = []")
    case True
    then show ?thesis
      by (simp add: path_join_def basename_no_slash_id[OF assms])
  next
    case False
    show ?thesis
    proof (cases "last a = CHR ''/''")
      case True
      with False obtain a' where a': "a = a' @ [CHR ''/'']"
        by (metis append_butlast_last_id)
      have "basename (a' @ CHR ''/'' # b) = b"
        using assms by (rule basename_append_slash)
      then have "basename (a @ b) = b"
        by (simp add: a')
      with True show ?thesis
        by (simp add: path_join_def basename_no_slash_id[OF assms])
    next
      case no: False
      have "basename (a @ ''/'' @ b) = b"
        using basename_append_slash[OF assms, of a] by simp
      with False no show ?thesis
        by (simp add: path_join_def basename_no_slash_id[OF assms])
    qed
  qed
qed

lemma file_stem_first_dot:
  assumes "CHR ''.'' \<notin> set s" and "CHR ''/'' \<notin> set (s @ ''.'' @ r)"
  shows "file_stem (path_join d (s @ ''.'' @ r)) = s"
proof -
  have "\<And>x. x \<in> set s \<Longrightarrow> x \<noteq> CHR ''.''"
    using assms(1) by auto
  then have "takeWhile (\<lambda>c. c \<noteq> CHR ''.'') (s @ ''.'' @ r) = s"
    by (simp add: takeWhile_append2)
  then show ?thesis
    unfolding file_stem_def basename_path_join[OF assms(2)] .
qed



text \<open>Injectivity of the derived paths.\<close>

lemma split_at_first:
  assumes "c \<notin> set xs" and "c \<notin> set xs'" and eq: "xs @ c # ys = xs' @ c # ys'"
  shows "xs = xs' \<and> ys = ys'"
proof -
  have "takeWhile (\<lambda>x. x \<noteq> c) (xs @ c # ys) = xs"
    using assms(1) by (auto simp: takeWhile_tail)
  moreover have "takeWhile (\<lambda>x. x \<noteq> c) (xs' @ c # ys') = xs'"
    using assms(2) by (auto simp: takeWhile_tail)
  ultimately have "xs = xs'" using eq by simp
  with eq show ?thesis by simp
qed

lemma split_at_last:
  assumes "c \<notin> set ys" and "c \<notin> set ys'" and "xs @ c # ys = xs' @ c # ys'"
  shows "xs = xs' \<and> ys = ys'"
proof -
  from assms(3) have "rev (xs @ c # ys) = rev (xs' @ c # ys')" by (rule arg_cong)
  then have eq: "rev ys @ c # rev xs = rev ys' @ c # rev xs'" by simp
  have n: "c \<notin> set (rev ys)" "c \<notin> set (rev ys')" using assms(1,2) by simp_all
  from split_at_first[OF n eq] show ?thesis by simp
qed

lemma derived_name_inj:
  assumes eq: "od @ ''/'' @ s1 @ ''_threshold_'' @ f1 @ suf
             = od @ ''/'' @ s2 @ ''_threshold_'' @ f2 @ suf"
    and "CHR ''_'' \<notin> set f1" and "CHR ''_'' \<notin> set f2"
  shows "s1 = s2 \<and> f1 = f2"
proof -
  from eq have "(od @ ''/'' @ s1 @ ''_threshold_'' @ f1) @ suf
      = (od @ ''/'' @ s2 @ ''_threshold_'' @ f2) @ suf"
    by simp
  then have "od @ ''/'' @ s1 @ ''_threshold_'' @ f1 = od @ ''/'' @ s2 @ ''_threshold_'' @ f2"
    by (simp only: append_same_eq)
  then have "(s1 @ ''_threshold'') @ CHR ''_'' # f1 = (s2 @ ''_threshold'') @ CHR ''_'' # f2"
    by simp
  from split_at_last[OF assms(2,3) this]
  have "s1 @ ''_threshold'' = s2 @ ''_threshold''" and f: "f1 = f2" by simp_all
  then have "s1 = s2" by (simp only: append_same_eq)
  with f show ?thesis by simp
qed

lemma raster_path_inj:
  assumes "threshold_raster_path env i1 od t1 = threshold_raster_path env i2 od t2"
    and "CHR ''_'' \<notin> set (format_threshold env t1)"
    and "CHR ''_'' \<notin> set (format_threshold env t2)"
  shows "file_stem i1 = file_stem i2 \<and> format_threshold env t1 = format_threshold env t2"
  using assms(1) unfolding threshold_raster_path_def
  by (rule derived_name_inj) (rule assms)+

lemma vector_path_inj:
  assumes "threshold_vector_path env i1 od t1 = threshold_vector_path env i2 od t2"
    and "CHR ''_'' \<notin> set (format_threshold env t1)"
    and "CHR ''_'' \<notin> set (format_threshold env t2)"
  shows "file_stem i1 = file_stem i2 \<and> format_threshold env t1 = format_threshold env t2"
  using assms(1) unfolding threshold_vector_path_def
  by (rule derived_name_inj) (rule assms)+

lemma set_output_paths:
  "set (output_paths env inp od ts) =
     threshold_raster_path env inp od ` set ts \<union> threshold_vector_path env inp od ` set ts"
  by (induction ts) auto

lemma in_output_paths:
  assumes "p \<in> set (output_paths env inp od ts)"
  shows "\<exists>t\<in>set ts. p = threshold_raster_path env inp od t
                    \<or> p = threshold_vector_path env inp od t"
  using assms unfolding set_output_paths by auto

lemma output_paths_same_stem:
  assumes p1: "p \<in> set (output_paths env i1 od ts)"
    and p2: "p \<in> set (output_paths env i2 od us)"
    and n1: "\<forall>t\<in>set ts. CHR ''_'' \<notin> set (format_threshold env t)"
    and n2: "\<forall>t\<in>set us. CHR ''_'' \<notin> set (format_threshold env t)"
  shows "file_stem i1 = file_stem i2"
proof -
  from in_output_paths[OF p1] obtain t where t: "t \<in> set ts"
    and pt: "p = threshold_raster_path env i1 od t \<or> p = threshold_vector_path env i1 od t"
    by blast
  from in_output_paths[OF p2] obtain u where u: "u \<in> set us"
    and pu: "p = threshold_raster_path env i2 od u \<or> p = threshold_vector_path env i2 od u"
    by blast
  from t n1 have ft: "CHR ''_'' \<notin> set (format_threshold env t)" by simp
  from u n2 have fu: "CHR ''_'' \<notin> set (format_threshold env u)" by simp
  from pt show ?thesis
  proof
    assume r: "p = threshold_raster_path env i1 od t"
    from pu show ?thesis
    proof
      assume "p = threshold_raster_path env i2 od u"
      with r have "threshold_raster_path env i1 od t = threshold_raster_path env i2 od u"
        by simp
      from raster_path_inj[OF this ft fu] show ?thesis by simp
    next
      assume "p = threshold_vector_path env i2 od u"
      with r raster_path_not_vector_path[of env i1 od t i2 od u] show ?thesis by simp
    qed
  next
    assume v: "p = threshold_vector_path env i1 od t"
    from pu show ?thesis
    proof
      assume "p = threshold_raster_path env i2 od u"
      with v raster_path_not_vector_path[of env i2 od u i1 od t] show ?thesis by simp
    next
      assume "p = threshold_vector_path env i2 od u"
      with v have "threshold_vector_path env i1 od t = threshold_vector_path env i2 od u"
        by simp
      from vector_path_inj[OF this ft fu] show ?thesis by simp
    qed
  qed
qed

lemma distinct_output_paths:
  assumes "distinct (map (format_threshold env) ts)"
    and "\<forall>t\<in>set ts. CHR ''_'' \<notin> set (format_threshold env t)"
  shows "distinct (output_paths env inp od ts)"
  using assms
proof (induction ts)
  case Nil
  show ?case by simp
next
  case (Cons t ts)
  from Cons.prems(2) have ft: "CHR ''_'' \<notin> set (format_threshold env t)" by simp
  have r: "threshold_raster_path env inp od t \<notin> set (output_paths env inp od ts)"
  proof
    assume "threshold_raster_path env inp od t \<in> set (output_paths env inp od ts)"
    from in_output_paths[OF this] obtain u where u: "u \<in> set ts"
      and "threshold_raster_path env inp od t = threshold_raster_path env inp od u
         \<or> threshold_raster_path env inp od t = threshold_vector_path env inp od u"
      by blast
    with raster_path_not_vector_path[of env inp od t inp od u]
    have eq: "threshold_raster_path env inp od t = threshold_raster_path env inp od u"
      by simp
    from u Cons.prems(2) have fu: "CHR ''_'' \<notin> set (format_threshold env u)" by simp
    from raster_path_inj[OF eq ft fu]
    have "format_threshold env t = format_threshold env u" by simp
    with u Cons.prems(1) show False by force
  qed
  have v: "threshold_vector_path env inp od t \<notin> set (output_paths env inp od ts)"
  proof
    assume "threshold_vector_path env inp od t \<in> set (output_paths env inp od ts)"
    from in_output_paths[OF this] obtain u where u: "u \<in> set ts"
      and "threshold_vector_path env inp od t = threshold_raster_path env inp od u
         \<or> threshold_vector_path env inp od t = threshold_vector_path env inp od u"
      by blast
    with raster_path_not_vector_path[of env inp od u inp od t]
    have eq: "threshold_vector_path env inp od t = threshold_vector_path env inp od u"
      by auto
    from u Cons.prems(2) have fu: "CHR ''_'' \<notin> set (format_threshold env u)" by simp
    from vector_path_inj[OF eq ft fu]
    have "format_threshold env t = format_threshold env u" by simp
    with u Cons.prems(1) show False by force
  qed
  from Cons have "distinct (output_paths env inp od ts)" by simp
  with r v raster_path_not_vector_path[of env inp od t inp od t] show ?case by simp
qed

lemma distinct_folder_output_paths:
  assumes "distinct (map (\<lambda>f. file_stem (path_join d f)) fs)"
    and "distinct (map (format_threshold env) ts)"
    and "\<forall>t\<in>set ts. CHR ''_'' \<notin> set (format_threshold env t)"
  shows "distinct (folder_output_paths env d od ts fs)"
  using assms(1)
proof (induction fs)
  case Nil
  show ?case by (simp add: folder_output_paths_def)
next
  case (Cons f fs)
  have disj: "set (output_paths env (path_join d f) od ts)
      \<inter> set (folder_output_paths env d od ts fs) = {}"
  proof (rule ccontr)
    assume "\<not> ?thesis"
    then obtain p g where p: "p \<in> set (output_paths env (path_join d f) od ts)"
      and g: "g \<in> set fs" and pg: "p \<in> set (output_paths env (path_join d g) od ts)"
      by (auto simp: folder_output_paths_def)
    from output_paths_same_stem[OF p pg assms(3) assms(3)]
    have "file_stem (path_join d f) = file_stem (path_join d g)" .
    with g Cons.prems show False by force
  qed
  from Cons have "distinct (folder_output_paths env d od ts fs)" by simp
  with disj distinct_output_paths[OF assms(2,3), of "path_join d f" od]
  show ?case by (simp add: folder_output_paths_def)
qed

section \<open>What a run changes\<close>

lemma create_threshold_raster_cases:
  "(\<exists>e. create_threshold_raster env w i out t = Inl (e, w))
   \<or> (\<exists>ds. create_threshold_raster env w i out t = Inr (out, write_file w out (Raster ds)))"
  by (auto simp: create_threshold_raster_def Let_def split: option.splits)

lemma raster_to_vector_cases:
  "(\<exists>e. raster_to_vector env w i out = Inl (e, w))
   \<or> (\<exists>v. raster_to_vector env w i out = Inr ((), write_vector w i out v))"
  by (auto simp: raster_to_vector_def split: option.splits)

lemma process_thresholds_loop_grows:
  "dom (files w) \<subseteq> dom (files (outcome_world (process_thresholds_loop env inp od ts vls w)))
   \<and> (\<exists>new. project_layers (outcome_world (process_thresholds_loop env inp od ts vls w))
              = project_layers w @ new)"
proof (induction ts arbitrary: vls w)
  case Nil
  show ?case by simp
next
  case (Cons t ts)
  let ?rp = "threshold_raster_path env inp od t"
  let ?vp = "threshold_vector_path env inp od t"
  let ?l = "threshold_layer env inp od t"
  from create_threshold_raster_cases[of env w inp ?rp t] show ?case
  proof (elim disjE exE)
    fix e assume "create_threshold_raster env w inp ?rp t = Inl (e, w)"
    then show ?thesis by (simp add: Let_def)
  next
    fix ds assume c: "create_threshold_raster env w inp ?rp t
        = Inr (?rp, write_file w ?rp (Raster ds))"
    let ?w1 = "write_file w ?rp (Raster ds)"
    from raster_to_vector_cases[of env ?w1 ?rp ?vp] show ?thesis
    proof (elim disjE exE)
      fix e assume "raster_to_vector env ?w1 ?rp ?vp = Inl (e, ?w1)"
      with c show ?thesis by (auto simp: Let_def)
    next
      fix v assume r: "raster_to_vector env ?w1 ?rp ?vp = Inr ((), write_vector ?w1 ?rp ?vp v)"
      let ?w2 = "write_vector ?w1 ?rp ?vp v"
      show ?thesis
      proof (cases "isValid env ?w2 ?l")
        case True
        then have step: "process_thresholds_loop env inp od (t # ts) vls w =
            process_thresholds_loop env inp od ts (vls @ [?l]) (addMapLayer ?w2 ?l)"
          using c r by (simp add: Let_def)
        have d: "dom (files w) \<subseteq> dom (files (addMapLayer ?w2 ?l))"
          and l: "project_layers (addMapLayer ?w2 ?l) = project_layers w @ [?l]"
          by (simp_all add: step_dom) blast
        from Cons.IH[of "addMapLayer ?w2 ?l" "vls @ [?l]"] obtain new where
          "dom (files (addMapLayer ?w2 ?l)) \<subseteq> dom (files (outcome_world
              (process_thresholds_loop env inp od ts (vls @ [?l]) (addMapLayer ?w2 ?l))))"
          and "project_layers (outcome_world
              (process_thresholds_loop env inp od ts (vls @ [?l]) (addMapLayer ?w2 ?l)))
            = project_layers (addMapLayer ?w2 ?l) @ new"
          by blast
        with d l show ?thesis
          unfolding step by auto
      next
        case False
        then have step: "process_thresholds_loop env inp od (t # ts) vls w =
            process_thresholds_loop env inp od ts vls ?w2"
          using c r by (simp add: Let_def)
        have d: "dom (files w) \<subseteq> dom (files ?w2)"
          and l: "project_layers ?w2 = project_layers w"
          by (simp_all add: step_dom) blast
        from Cons.IH[of ?w2 vls] obtain new where
          "dom (files ?w2) \<subseteq> dom (files (outcome_world
              (process_thresholds_loop env inp od ts vls ?w2)))"
          and "project_layers (outcome_world
              (process_thresholds_loop env inp od ts vls ?w2))
            = project_layers ?w2 @ new"
          by blast
        with d l show ?thesis
          unfolding step by auto
      qed
    qed
  qed
qed

lemma process_rasters_loop_grows:
  "dom (files w) \<subseteq> dom (files (outcome_world (process_rasters_loop env d od ts fs w)))
   \<and> (\<exists>new. project_layers (outcome_world (process_rasters_loop env d od ts fs w))
              = project_layers w @ new)"
proof (induction fs arbitrary: w)
  case Nil
  show ?case by simp
next
  case (Cons f fs)
  let ?one = "process_thresholds env w (path_join d f) od ts"
  note g = process_thresholds_loop_grows[of w env "path_join d f" od ts "[]"]
  show ?case
  proof (cases ?one)
    case (Inl fault)
    then have "process_rasters_loop env d od ts (f # fs) w = Inl fault"
      by (simp add: Let_def)
    moreover obtain e w0 where "fault = (e, w0)" by (cases fault)
    ultimately show ?thesis using g Inl by (simp add: process_thresholds_def)
  next
    case (Inr r)
    obtain ls w1 where r: "r = (ls, w1)" by (cases r)
    with Inr have step: "process_rasters_loop env d od ts (f # fs) w
        = process_rasters_loop env d od ts fs w1"
      by (simp add: Let_def)
    from g Inr r have g1: "dom (files w) \<subseteq> dom (files w1)"
      and "\<exists>new. project_layers w1 = project_layers w @ new"
      by (simp_all add: process_thresholds_def)
    then obtain n1 where n1: "project_layers w1 = project_layers w @ n1" by blast
    from Cons.IH[of w1] obtain n2 where
      "dom (files w1) \<subseteq> dom (files (outcome_world (process_rasters_loop env d od ts fs w1)))"
      and "project_layers (outcome_world (process_rasters_loop env d od ts fs w1))
          = project_layers w1 @ n2"
      by blast
    with g1 n1 show ?thesis unfolding step by auto
  qed
qed

lemma process_rasters_in_folder_grows:
  "dom (files w) \<subseteq> dom (files (outcome_world (process_rasters_in_folder env w d od ts)))
   \<and> (\<exists>new. project_layers (outcome_world (process_rasters_in_folder env w d od ts))
              = project_layers w @ new)"
  using process_rasters_loop_grows[of w env d od ts]
  by (simp add: process_rasters_in_folder_def split: option.split)

lemma demo_format_no_underscore:
  "\<forall>t\<in>set ts. CHR ''_'' \<notin> set (format_threshold demo_env t)"
  by (simp add: demo_env_def demo_format_def split: pynum.split)

lemma demo_folder_serves:
  "list_all (\<lambda>f. host_serves demo_env demo_world (path_join ''in'' f) ''out'' ts)
     [''a.asc'', ''b.c.asc'']"
  by (simp add: demo_joins demo_serves demo_serves_b)

lemma demo_asc: "\<forall>f\<in>set [''a.asc'', ''b.c.asc'']. endswith f ''.asc''"
  by (simp add: endswith_def)

lemma demo_folder_unfold:
  "process_rasters_in_folder demo_env w ''in'' od ts =
     process_rasters_loop demo_env ''in'' od ts [''a.asc'', ''b.c.asc''] w"
  by (simp only: process_rasters_in_folder_def demo_listdir option.case Let_def
      demo_raster_files)

lemma demo_output_paths_dup:
  "output_paths demo_env ''in/a.asc'' ''out'' demo_duplicates =
     [''out/a_threshold_0.5.tif'', ''out/a_threshold_0.5_polygons.shp'',
      ''out/a_threshold_0.5.tif'', ''out/a_threshold_0.5_polygons.shp'']"
  by (simp add: demo_duplicates_def threshold_raster_path_def threshold_vector_path_def
      demo_stem demo_env_def demo_format_def)

lemma demo_output_paths_dup_b:
  "output_paths demo_env ''in/b.c.asc'' ''out'' demo_duplicates =
     [''out/b_threshold_0.5.tif'', ''out/b_threshold_0.5_polygons.shp'',
      ''out/b_threshold_0.5.tif'', ''out/b_threshold_0.5_polygons.shp'']"
  by (simp add: demo_duplicates_def threshold_raster_path_def threshold_vector_path_def
      demo_stem_b demo_env_def demo_format_def)
text \<open>Two iterations that derive the same path.\<close>

lemma raster_path_same_format:
  assumes "format_threshold env t = format_threshold env u"
  shows "threshold_raster_path env inp od t = threshold_raster_path env inp od u"
  using assms by (simp add: threshold_raster_path_def)

lemma raster_path_same_stem:
  assumes "file_stem i1 = file_stem i2"
  shows "threshold_raster_path env i1 od t = threshold_raster_path env i2 od t"
  using assms by (simp add: threshold_raster_path_def)

lemma raster_path_in_output_paths:
  "t \<in> set ts \<Longrightarrow> threshold_raster_path env inp od t \<in> set (output_paths env inp od ts)"
  by (simp add: set_output_paths)

lemma distinct_output_paths_formats:
  assumes "distinct (output_paths env inp od ts)"
  shows "distinct (map (format_threshold env) ts)"
  using assms
proof (induction ts)
  case Nil
  show ?case by simp
next
  case (Cons t ts)
  from Cons.prems have new: "threshold_raster_path env inp od t \<notin> set (output_paths env inp od ts)"
    and rest: "distinct (output_paths env inp od ts)"
    by simp_all
  have "format_threshold env t \<notin> set (map (format_threshold env) ts)"
  proof
    assume "format_threshold env t \<in> set (map (format_threshold env) ts)"
    then obtain u where u: "u \<in> set ts"
      and "format_threshold env t = format_threshold env u"
      by auto
    then have "threshold_raster_path env inp od t = threshold_raster_path env inp od u"
      by (intro raster_path_same_format)
    with raster_path_in_output_paths[OF u, of env inp od] new show False by simp
  qed
  with Cons.IH[OF rest] show ?case by simp
qed

lemma distinct_folder_output_paths_formats:
  assumes "distinct (folder_output_paths env d od ts fs)" and "fs \<noteq> []"
  shows "distinct (map (format_threshold env) ts)"
proof -
  from assms(2) obtain f rest where "fs = f # rest" by (cases fs) auto
  with assms(1) have "distinct (output_paths env (path_join d f) od ts)" by simp
  then show ?thesis by (rule distinct_output_paths_formats)
qed

lemma folder_output_paths_member:
  assumes "g \<in> set fs" and "p \<in> set (output_paths env (path_join d g) od ts)"
  shows "p \<in> set (folder_output_paths env d od ts fs)"
  using assms by (auto simp: folder_output_paths_def)

lemma distinct_folder_output_paths_stems:
  assumes "distinct (folder_output_paths env d od ts fs)" and "ts \<noteq> []"
  shows "distinct (map (\<lambda>f. file_stem (path_join d f)) fs)"
  using assms(1)
proof (induction fs)
  case Nil
  show ?case by simp
next
  case (Cons f fs)
  from assms(2) obtain t where t: "t \<in> set ts" by (cases ts) auto
  from Cons.prems have disj: "set (output_paths env (path_join d f) od ts)
      \<inter> set (folder_output_paths env d od ts fs) = {}"
    and rest: "distinct (folder_output_paths env d od ts fs)"
    by simp_all
  have "file_stem (path_join d f) \<notin> set (map (\<lambda>f. file_stem (path_join d f)) fs)"
  proof
    assume "file_stem (path_join d f) \<in> set (map (\<lambda>f. file_stem (path_join d f)) fs)"
    then obtain g where g: "g \<in> set fs"
      and "file_stem (path_join d f) = file_stem (path_join d g)"
      by auto
    then have eq: "threshold_raster_path env (path_join d f) od t
        = threshold_raster_path env (path_join d g) od t"
      by (intro raster_path_same_stem)
    have "threshold_raster_path env (path_join d f) od t
        \<in> set (output_paths env (path_join d f) od ts)"
      using t by (rule raster_path_in_output_paths)
    moreover have "threshold_raster_path env (path_join d g) od t
        \<in> set (folder_output_paths env d od ts fs)"
      using g raster_path_in_output_paths[OF t] by (rule folder_output_paths_member)
    ultimately show False using disj eq by auto
  qed
  with Cons.IH[OF rest] show ?case by simp
qed

lemma asc_not_folder_touched:
  assumes "endswith f ''.asc''"
  shows "path_join d f \<notin> set (folder_touched_paths env d od ts fs)"
  using asc_not_touched[OF assms, of d env _ od ts]
  by (auto simp: folder_touched_paths_def)

text \<open>
  Claim C9, as amended. Across a run, whether it returns or raises, no file is removed
  and the layer registry is only appended to. When the run returns, the datasets written
  are exactly the derived raster and polygon paths, one write of each per (input file,
  threshold) iteration; the files that exist afterwards are those that existed before
  and the derived paths with their companions (the raster's \<^verbatim>\<open>.aux.xml\<close>, the
  shapefile's \<^verbatim>\<open>.shx\<close> and \<^verbatim>\<open>.dbf\<close>); every other path, and in particular every \<^verbatim>\<open>.asc\<close>
  input, holds what it held before. No dataset path is written twice provided the input
  files have pairwise distinct stems and the thresholds format to pairwise distinct
  texts without an underscore. When two thresholds format to the same text and there
  is an input file, or two input files have the same stem and there is a threshold,
  some dataset path is written more than once.
\<close>

theorem process_rasters_in_folder_only_adds:
  assumes ld: "listdir env d = Some names"
    and rf: "raster_files = filter (\<lambda>f. endswith f ''.asc'') names"
  shows "dom (files w) \<subseteq> dom (files (outcome_world (process_rasters_in_folder env w d od ts)))
     \<and> (\<exists>new. project_layers (outcome_world (process_rasters_in_folder env w d od ts))
                = project_layers w @ new)
     \<and> (\<forall>u w'. process_rasters_in_folder env w d od ts = Inr (u, w') \<longrightarrow>
            writes w' = writes w @ folder_output_paths env d od ts raster_files
          \<and> dom (files w') = dom (files w)
                \<union> set (folder_touched_paths env d od ts raster_files)
          \<and> (\<forall>p. p \<notin> set (folder_touched_paths env d od ts raster_files)
                 \<longrightarrow> files w' p = files w p)
          \<and> (\<forall>f\<in>set raster_files. files w' (path_join d f) = files w (path_join d f)))
     \<and> (distinct (map (\<lambda>f. file_stem (path_join d f)) raster_files)
           \<and> distinct (map (format_threshold env) ts)
           \<and> (\<forall>t\<in>set ts. CHR ''_'' \<notin> set (format_threshold env t))
         \<longrightarrow> distinct (folder_output_paths env d od ts raster_files))
     \<and> (\<not> distinct (map (format_threshold env) ts) \<and> raster_files \<noteq> []
         \<longrightarrow> \<not> distinct (folder_output_paths env d od ts raster_files))
     \<and> (\<not> distinct (map (\<lambda>f. file_stem (path_join d f)) raster_files) \<and> ts \<noteq> []
         \<longrightarrow> \<not> distinct (folder_output_paths env d od ts raster_files))"
proof -
  note g = process_rasters_in_folder_grows[of w env d od ts]
  have asc: "\<forall>f\<in>set raster_files. endswith f ''.asc''"
    by (simp add: rf)
  have succ: "writes w' = writes w @ folder_output_paths env d od ts raster_files
          \<and> dom (files w') = dom (files w)
                \<union> set (folder_touched_paths env d od ts raster_files)
          \<and> (\<forall>p. p \<notin> set (folder_touched_paths env d od ts raster_files)
                 \<longrightarrow> files w' p = files w p)
          \<and> (\<forall>f\<in>set raster_files. files w' (path_join d f) = files w (path_join d f))"
    if "process_rasters_in_folder env w d od ts = Inr (u, w')" for u w'
  proof -
    from that have run: "process_rasters_loop env d od ts raster_files w = Inr (u, w')"
      by (simp add: process_rasters_in_folder_def ld rf)
    note r = process_rasters_loop_result[OF run asc]
    from r have frame: "\<forall>p. p \<notin> set (folder_touched_paths env d od ts raster_files)
        \<longrightarrow> files w' p = files w p"
      by blast
    have "\<forall>f\<in>set raster_files. files w' (path_join d f) = files w (path_join d f)"
    proof
      fix f assume "f \<in> set raster_files"
      with asc have "endswith f ''.asc''" by simp
      then have "path_join d f \<notin> set (folder_touched_paths env d od ts raster_files)"
        by (rule asc_not_folder_touched)
      with frame show "files w' (path_join d f) = files w (path_join d f)" by blast
    qed
    with r frame show ?thesis by blast
  qed
  have dist: "distinct (folder_output_paths env d od ts raster_files)"
    if "distinct (map (\<lambda>f. file_stem (path_join d f)) raster_files)
      \<and> distinct (map (format_threshold env) ts)
      \<and> (\<forall>t\<in>set ts. CHR ''_'' \<notin> set (format_threshold env t))"
    using that by (intro distinct_folder_output_paths) simp_all
  have twice_formats: "\<not> distinct (folder_output_paths env d od ts raster_files)"
    if "\<not> distinct (map (format_threshold env) ts) \<and> raster_files \<noteq> []"
    using that distinct_folder_output_paths_formats[of env d od ts raster_files] by blast
  have twice_stems: "\<not> distinct (folder_output_paths env d od ts raster_files)"
    if "\<not> distinct (map (\<lambda>f. file_stem (path_join d f)) raster_files) \<and> ts \<noteq> []"
    using that distinct_folder_output_paths_stems[of env d od ts raster_files] by blast
  from g succ dist twice_formats twice_stems show ?thesis by blast
qed

theorem process_rasters_in_folder_only_adds_witness:
  "listdir demo_env ''in'' = Some [''a.asc'', ''notes.txt'', ''b.c.asc'']
   \<and> distinct (map (\<lambda>f. file_stem (path_join ''in'' f)) [''a.asc'', ''b.c.asc''])
   \<and> distinct (map (format_threshold demo_env) demo_thresholds)
   \<and> list_all (\<lambda>t. CHR ''_'' \<notin> set (format_threshold demo_env t)) demo_thresholds
   \<and> (\<exists>w'. process_rasters_in_folder demo_env demo_world ''in'' ''out'' demo_thresholds
               = Inr ((), w')
          \<and> dom (files demo_world) \<subseteq> dom (files w')
          \<and> (\<exists>new. project_layers w' = project_layers demo_world @ new)
          \<and> files w' ''in/a.asc'' = files demo_world ''in/a.asc''
          \<and> files w' ''in/b.c.asc'' = files demo_world ''in/b.c.asc''
          \<and> distinct (writes w'))"
proof -
  note inst = process_rasters_in_folder_only_adds [of demo_env "''in''"
      "[''a.asc'', ''notes.txt'', ''b.c.asc'']" "[''a.asc'', ''b.c.asc'']"
      demo_world "''out''" demo_thresholds, OF demo_listdir demo_raster_files [symmetric]]
  have stems: "distinct (map (\<lambda>f. file_stem (path_join ''in'' f)) [''a.asc'', ''b.c.asc''])"
    by (simp add: demo_joins demo_stem demo_stem_b)
  have fmts: "distinct (map (format_threshold demo_env) demo_thresholds)"
    by (simp add: demo_thresholds_def demo_env_def demo_format_def)
  from process_rasters_loop_returns[OF demo_folder_serves demo_asc] obtain w' where
    run: "process_rasters_in_folder demo_env demo_world ''in'' ''out'' demo_thresholds
            = Inr ((), w')"
    unfolding demo_folder_unfold by blast
  from inst run have 1: "dom (files demo_world) \<subseteq> dom (files w')"
    and 2: "\<exists>new. project_layers w' = project_layers demo_world @ new"
    by simp_all
  from inst run have 3: "writes w' = writes demo_world
        @ folder_output_paths demo_env ''in'' ''out'' demo_thresholds [''a.asc'', ''b.c.asc'']"
    and 4: "\<forall>f\<in>set [''a.asc'', ''b.c.asc''].
        files w' (path_join ''in'' f) = files demo_world (path_join ''in'' f)"
    by blast+
  from inst have 5: "distinct (folder_output_paths demo_env ''in'' ''out'' demo_thresholds
        [''a.asc'', ''b.c.asc''])"
    using stems fmts demo_format_no_underscore[of demo_thresholds] by blast
  from 3 5 have 6: "distinct (writes w')" by (simp add: demo_world_empty)
  from 4 have 7: "files w' ''in/a.asc'' = files demo_world ''in/a.asc''"
    "files w' ''in/b.c.asc'' = files demo_world ''in/b.c.asc''"
    by (simp_all add: demo_joins)
  from run 1 2 6 7 stems fmts demo_format_no_underscore[of demo_thresholds] demo_listdir
  show ?thesis unfolding list_all_iff by blast
qed

text \<open>
  Claim C9 as stated fails: the script does not guard against two iterations deriving
  the same path. With the threshold list \<open>[0.5, 0.5]\<close> the raster
  \<^verbatim>\<open>out/a_threshold_0.5.tif\<close> is written twice in one run, the second write replacing
  the file the first one created.
\<close>

theorem process_rasters_in_folder_overwrites_counterexample:
  "count_list
     (writes (outcome_world
        (process_rasters_in_folder demo_env demo_world ''in'' ''out'' demo_duplicates)))
     ''out/a_threshold_0.5.tif'' = 2"
proof -
  from process_rasters_loop_returns[OF demo_folder_serves demo_asc] obtain w' where
    run: "process_rasters_loop demo_env ''in'' ''out'' demo_duplicates [''a.asc'', ''b.c.asc'']
            demo_world = Inr ((), w')"
    by blast
  from process_rasters_loop_result[OF run demo_asc]
  have "writes w' = output_paths demo_env ''in/a.asc'' ''out'' demo_duplicates
      @ output_paths demo_env ''in/b.c.asc'' ''out'' demo_duplicates"
    by (simp add: demo_world_empty demo_joins)
  then have "count_list (writes w') ''out/a_threshold_0.5.tif'' = 2"
    unfolding demo_output_paths_dup demo_output_paths_dup_b by simp
  with run show ?thesis by (simp add: demo_folder_unfold)
qed

section \<open>Duplicate thresholds\<close>

lemma raster_path_eq_iff:
  "threshold_raster_path env inp od u = threshold_raster_path env inp od t
     \<longleftrightarrow> format_threshold env u = format_threshold env t"
  by (simp add: threshold_raster_path_def)

lemma vector_path_eq_iff:
  "threshold_vector_path env inp od u = threshold_vector_path env inp od t
     \<longleftrightarrow> format_threshold env u = format_threshold env t"
  by (simp add: threshold_vector_path_def)

lemma threshold_layer_eq_iff:
  "threshold_layer env inp od u = threshold_layer env inp od t
     \<longleftrightarrow> format_threshold env u = format_threshold env t"
  by (auto simp: threshold_layer_def vector_path_eq_iff)

lemma vector_path_not_raster_path:
  "threshold_vector_path env inp od t \<noteq> threshold_raster_path env inp' od' t'"
  using raster_path_not_vector_path[of env inp' od' t' inp od t] by simp

lemma count_output_paths_raster:
  assumes "\<forall>u\<in>set ts. format_threshold env u = format_threshold env t \<longrightarrow> u = t"
  shows "count_list (output_paths env inp od ts) (threshold_raster_path env inp od t)
           = count_list ts t"
  using assms
proof (induction ts)
  case Nil
  show ?case by simp
next
  case (Cons u ts)
  then have same: "format_threshold env u = format_threshold env t \<longleftrightarrow> u = t"
    and ih: "count_list (output_paths env inp od ts) (threshold_raster_path env inp od t)
           = count_list ts t"
    by auto
  show ?case
    by (simp add: ih raster_path_eq_iff same vector_path_not_raster_path)
qed

lemma count_output_paths_vector:
  assumes "\<forall>u\<in>set ts. format_threshold env u = format_threshold env t \<longrightarrow> u = t"
  shows "count_list (output_paths env inp od ts) (threshold_vector_path env inp od t)
           = count_list ts t"
  using assms
proof (induction ts)
  case Nil
  show ?case by simp
next
  case (Cons u ts)
  then have same: "format_threshold env u = format_threshold env t \<longleftrightarrow> u = t"
    and ih: "count_list (output_paths env inp od ts) (threshold_vector_path env inp od t)
           = count_list ts t"
    by auto
  show ?case
    by (simp add: ih vector_path_eq_iff same raster_path_not_vector_path)
qed

lemma count_loaded_layers:
  assumes "\<forall>u\<in>set ts. format_threshold env u = format_threshold env t \<longrightarrow> u = t"
  shows "count_list (map (threshold_layer env inp od) (filter P ts)) (threshold_layer env inp od t)
           = (if P t then count_list ts t else 0)"
  using assms
proof (induction ts)
  case Nil
  show ?case by simp
next
  case (Cons u ts)
  then have same: "format_threshold env u = format_threshold env t \<longleftrightarrow> u = t"
    and ih: "count_list (map (threshold_layer env inp od) (filter P ts))
        (threshold_layer env inp od t) = (if P t then count_list ts t else 0)"
    by auto
  show ?case
    by (auto simp: ih threshold_layer_eq_iff same)
qed

lemma distinct_count_list_le: "distinct xs \<Longrightarrow> count_list xs x \<le> 1"
  by (induction xs) auto

lemma card_output_paths: "card (set (output_paths env inp od ts)) \<le> 2 * card (set ts)"
proof -
  have "card (set (output_paths env inp od ts))
      \<le> card (threshold_raster_path env inp od ` set ts)
        + card (threshold_vector_path env inp od ` set ts)"
    unfolding set_output_paths by (rule card_Un_le)
  also have "\<dots> \<le> card (set ts) + card (set ts)"
    by (intro add_mono card_image_le) simp_all
  finally show ?thesis by simp
qed

text \<open>The paths of one threshold against the paths of the others.\<close>

lemma different_extension:
  assumes "endswith p a" and "endswith q b" and "length a = length b" and "a \<noteq> b"
  shows "p \<noteq> q"
  using assms endswith_same_length[of p a b] by auto

lemma raster_path_not_companion:
  "threshold_raster_path env inp od t \<noteq> threshold_raster_path env inp' od' u @ ''.aux.xml''"
  "threshold_raster_path env inp od t \<noteq> shapefile_part (threshold_vector_path env inp' od' u) ''.shx''"
  "threshold_raster_path env inp od t \<noteq> shapefile_part (threshold_vector_path env inp' od' u) ''.dbf''"
  by (rule different_extension[OF endswith_raster_path endswith_aux_path], simp, simp)
    (rule different_extension[OF endswith_raster_path endswith_shapefile_part], simp, simp)+

lemma vector_path_not_companion:
  "threshold_vector_path env inp od t \<noteq> threshold_raster_path env inp' od' u @ ''.aux.xml''"
  "threshold_vector_path env inp od t \<noteq> shapefile_part (threshold_vector_path env inp' od' u) ''.shx''"
  "threshold_vector_path env inp od t \<noteq> shapefile_part (threshold_vector_path env inp' od' u) ''.dbf''"
  by (rule different_extension[OF endswith_vector_path endswith_aux_path], simp, simp)
    (rule different_extension[OF endswith_vector_path endswith_shapefile_part], simp, simp)+

lemma other_formats_not_touched:
  assumes "\<forall>u\<in>set ts. format_threshold env u \<noteq> format_threshold env t"
  shows "threshold_raster_path env inp od t \<notin> set (touched_paths env inp od ts)"
    and "threshold_vector_path env inp od t \<notin> set (touched_paths env inp od ts)"
  using assms
  by (induction ts)
    (auto simp: raster_path_eq_iff vector_path_eq_iff raster_path_not_companion
      vector_path_not_companion raster_path_not_vector_path vector_path_not_raster_path)

text \<open>A run on a list is the run on a prefix followed by the run on the rest.\<close>

lemma process_thresholds_loop_append:
  "process_thresholds_loop env inp od (xs @ ys) vls w =
     (case process_thresholds_loop env inp od xs vls w of
        Inl fault \<Rightarrow> Inl fault
      | Inr (ls1, w1) \<Rightarrow> process_thresholds_loop env inp od ys ls1 w1)"
proof (induction xs arbitrary: vls w)
  case Nil
  show ?case by simp
next
  case (Cons x xs)
  show ?case
    by (simp add: Cons.IH Let_def split: sum.split prod.split)
qed

lemma process_thresholds_prefix:
  assumes "process_thresholds env w inp od (pre @ post) = Inr (ls, w')"
  shows "\<exists>ls1 w1. process_thresholds env w inp od pre = Inr (ls1, w1)"
proof (cases "process_thresholds_loop env inp od pre [] w")
  case (Inl fault)
  with assms show ?thesis
    by (simp add: process_thresholds_def process_thresholds_loop_append)
next
  case (Inr r)
  then show ?thesis by (cases r) (simp add: process_thresholds_def)
qed

text \<open>What the paths of a threshold hold once a run has processed it.\<close>

lemma process_thresholds_loop_content:
  assumes "process_thresholds_loop env inp od ts vls w = Inr (ls, w')"
    and "inp \<notin> set (touched_paths env inp od ts)"
    and "gdal_Open w inp = Some src" and "GetRasterBand1 src = Some b"
    and "t \<in> set ts"
    and "\<forall>u\<in>set ts. format_threshold env u = format_threshold env t \<longrightarrow> u = t"
  shows "files w' (threshold_raster_path env inp od t) = Some (Raster (threshold_dataset src b t))
     \<and> (\<exists>x. files w' (threshold_vector_path env inp od t) = Some (Vector x))"
  using assms
proof (induction ts arbitrary: vls w)
  case Nil
  then show ?case by simp
next
  case (Cons h ts)
  let ?rp = "threshold_raster_path env inp od h"
  let ?vp = "threshold_vector_path env inp od h"
  let ?l = "threshold_layer env inp od h"
  let ?five = "{?rp, ?rp @ ''.aux.xml'', shapefile_part ?vp ''.shx'',
      shapefile_part ?vp ''.dbf'', ?vp}"
  from Cons.prems(2) have ne: "inp \<notin> ?five"
    and rest: "inp \<notin> set (touched_paths env inp od ts)"
    by auto
  from process_thresholds_loop_InrD[OF Cons.prems(1)] Cons.prems(3,4) obtain v where
    c: "can_create env ?rp" "can_create env ?vp"
    and v: "polygonize env (threshold_dataset src b h) = Some v"
    by auto
  let ?w2 = "write_vector (write_file w ?rp (Raster (threshold_dataset src b h))) ?rp ?vp v"
  have "files ?w2 inp = files w inp"
    using ne by simp
  then have open2: "gdal_Open ?w2 inp = Some src"
    using Cons.prems(3) by (simp add: gdal_Open_def)
  obtain vls' w3 where run: "process_thresholds_loop env inp od ts vls' w3 = Inr (ls, w')"
    and open3: "gdal_Open w3 inp = Some src"
    and files3: "files w3 = files ?w2"
  proof (cases "vector_valid env v")
    case True
    have "process_thresholds_loop env inp od ts (vls @ [?l]) (addMapLayer ?w2 ?l) = Inr (ls, w')"
      using Cons.prems(1) True
      unfolding process_thresholds_loop_step[OF Cons.prems(3,4) c v] Let_def by simp
    moreover have "gdal_Open (addMapLayer ?w2 ?l) inp = Some src"
      by (simp only: gdal_Open_addMapLayer open2)
    moreover have "files (addMapLayer ?w2 ?l) = files ?w2"
      by (simp only: addMapLayer_fields)
    ultimately show ?thesis by (rule that)
  next
    case False
    have "process_thresholds_loop env inp od ts vls ?w2 = Inr (ls, w')"
      using Cons.prems(1) False
      unfolding process_thresholds_loop_step[OF Cons.prems(3,4) c v] Let_def by simp
    then show ?thesis using open2 by (rule that) simp
  qed
  show ?case
  proof (cases "t \<in> set ts")
    case True
    from Cons.prems(6) have "\<forall>u\<in>set ts. format_threshold env u = format_threshold env t \<longrightarrow> u = t"
      by simp
    from Cons.IH[OF run rest open3 Cons.prems(4) True this] show ?thesis .
  next
    case False
    with Cons.prems(5) have h: "h = t" by simp
    from False Cons.prems(6) have other: "\<forall>u\<in>set ts. format_threshold env u \<noteq> format_threshold env t"
      by auto
    note frame = process_thresholds_loop_result[OF run rest]
    have "files w' (threshold_raster_path env inp od t) = files w3 (threshold_raster_path env inp od t)"
      using frame other_formats_not_touched(1)[OF other] by blast
    moreover have "files w' (threshold_vector_path env inp od t) = files w3 (threshold_vector_path env inp od t)"
      using frame other_formats_not_touched(2)[OF other] by blast
    moreover have "files ?w2 ?rp = Some (Raster (threshold_dataset src b h))"
      using raster_path_not_vector_path[of env inp od h inp od h]
        raster_path_not_companion[of env inp od h inp od h]
      by simp
    moreover have "files ?w2 ?vp = Some (Vector v)"
      by simp
    ultimately show ?thesis
      unfolding files3 h by simp
  qed
qed

lemma demo_run_duplicates:
  "\<exists>ls w'. process_thresholds demo_env demo_world ''in/a.asc'' ''out'' demo_duplicates
      = Inr (ls, w')"
  unfolding process_thresholds_def
  by (rule process_thresholds_loop_returns[OF demo_serves
        input_not_in_touched_paths[OF demo_format_no_slash]])

lemma demo_touched_paths_dup:
  "touched_paths demo_env ''in/a.asc'' ''out'' demo_duplicates =
     [''out/a_threshold_0.5.tif'', ''out/a_threshold_0.5.tif.aux.xml'',
      ''out/a_threshold_0.5_polygons.shx'', ''out/a_threshold_0.5_polygons.dbf'',
      ''out/a_threshold_0.5_polygons.shp'',
      ''out/a_threshold_0.5.tif'', ''out/a_threshold_0.5.tif.aux.xml'',
      ''out/a_threshold_0.5_polygons.shx'', ''out/a_threshold_0.5_polygons.dbf'',
      ''out/a_threshold_0.5_polygons.shp'']"
  by (simp add: demo_duplicates_def shapefile_part_def endswith_def threshold_raster_path_def
      threshold_vector_path_def demo_stem demo_env_def demo_format_def)

lemma demo_paths_half:
  "threshold_raster_path demo_env ''in/a.asc'' ''out'' (PyFloat (Fin 0.5))
     = ''out/a_threshold_0.5.tif''"
  "threshold_vector_path demo_env ''in/a.asc'' ''out'' (PyFloat (Fin 0.5))
     = ''out/a_threshold_0.5_polygons.shp''"
  by (simp_all add: threshold_raster_path_def threshold_vector_path_def
      demo_stem demo_env_def demo_format_def)

lemma demo_dom: "dom (files demo_world)
    = {''in/a.asc'', ''in/b.c.asc'', ''probe/near.asc'', ''probe/big.asc''}"
  by (auto simp: demo_world_def)





end
